theory Spec2Isabelle
  imports Complex_Main "HOL-Library.Word" "HOL-Library.Sublist" "HOL-Library.AList"
    "HOL-Library.Multiset"
begin

unbundle bit_operations_syntax

section \<open>The worker script of tesseract.js\<close>

text \<open>
  The worker script (\<^verbatim>\<open>src/unnamed/part_001\<close>) receives packets, routes each one to a
  handler by its action name and answers through a response emitter bound to the packet.
  The module-level variables \<^verbatim>\<open>TessModule\<close>, \<^verbatim>\<open>api\<close>, \<^verbatim>\<open>latestJob\<close> and \<^verbatim>\<open>params\<close> are
  the fields of a state record that every handler takes and returns.  Everything the
  script calls but does not define (the adapter, the compiled engine, its virtual
  filesystem, the helpers \<^verbatim>\<open>setImage\<close>, \<^verbatim>\<open>dump\<close>, \<^verbatim>\<open>fileType\<close>, \<^verbatim>\<open>isURL\<close>) is a field of an
  environment record: what a call returns, and whether it throws.  A handler returns the
  list of the calls it made and the responses it sent, in order, the new state, and the
  exception that left it, if one did.
\<close>

subsection \<open>Values\<close>

type_synonym bytes = "8 word list"

text \<open>
  An exception.  \<open>TypeError\<close> is raised by the JavaScript runtime itself (a property
  read of \<^verbatim>\<open>undefined\<close> or \<^verbatim>\<open>null\<close>, a call of something that is not a function); its
  string names the expression that failed.  \<open>DOMException\<close> and \<open>Failure\<close> are thrown
  by a collaborator; \<^verbatim>\<open>err instanceof DOMException\<close> holds of the first only.
\<close>

datatype error = TypeError string | DOMException string | Failure string

fun instanceof_DOMException :: "error \<Rightarrow> bool" where
  "instanceof_DOMException (DOMException m) = True"
| "instanceof_DOMException (TypeError m) = False"
| "instanceof_DOMException (Failure m) = False"

text \<open>A parameter value, and an object of parameters as the list of its own
  properties in the order \<^verbatim>\<open>Object.keys\<close> enumerates them (keys are distinct in an object).\<close>

datatype pvalue = PStr string | PNum int

type_synonym params = "(string \<times> pvalue) list"

text \<open>A language spec is a code or an inline \<^verbatim>\<open>{code, data}\<close> pair; \<^verbatim>\<open>langs\<close> is a
  string or an array of specs.\<close>

datatype langspec = Code string | Inline string bytes

datatype langs = LangStr string | LangArr "langspec list"

record rect =
  left :: int
  top :: int
  width :: int
  height :: int

text \<open>A payload is an object whose fields may each be absent (\<^verbatim>\<open>undefined\<close>).\<close>

record options =
  corePath :: "string option"
  logging :: "bool option"
  langPath :: "string option"
  dataPath :: "string option"
  cachePath :: "string option"
  cacheMethod :: "string option"
  gzip :: "bool option"
  rectangle :: "rect option"
  angle :: "int option"

record payload =
  options :: "options option"
  fs_method :: "string option"
  fs_args :: "string list option"
  langs :: "langs option"
  oem :: "int option"
  p_params :: "params option"
  p_image :: "bytes option"
  title :: "string option"
  textonly :: "bool option"

record packet =
  workerId :: string
  jobId :: string
  action :: string
  payload :: "payload option"

definition no_options :: options where
  "no_options = \<lparr>corePath = None, logging = None, langPath = None, dataPath = None,
     cachePath = None, cacheMethod = None, gzip = None, rectangle = None, angle = None\<rparr>"

definition no_payload :: payload where
  "no_payload = \<lparr>options = None, fs_method = None, fs_args = None, langs = None, oem = None,
     p_params = None, p_image = None, title = None, textonly = None\<rparr>"

subsection \<open>Responses and calls\<close>

datatype status = Resolve | Reject | Progress

text \<open>The argument \<^verbatim>\<open>initialize\<close> passes to \<^verbatim>\<open>Init\<close>: the string itself, or the elements
  of the array (a code, or the \<^verbatim>\<open>data\<close> of an inline spec) joined by \<^verbatim>\<open>+\<close>.\<close>

datatype init_langs = InitStr string | InitJoin "(string + bytes) list"

record os_result =
  orientation_id :: nat
  script_id :: int
  sconfidence :: rat
  oconfidence :: rat
  script_name :: string

text \<open>The data a response carries.\<close>

datatype data =
    Undefined
  | Str string
  | ErrString error
  | ProgressInfo string string rat
  | JobProgress string string string rat
  | Loaded
  | Terminated
  | Langs langs
  | Params params
  | FSResult string
  | Bytes bytes
  | RecognizeResult string string
  | DetectResult int string rat "int option" rat

text \<open>
  \<open>ErrString e\<close> is \<^verbatim>\<open>e.toString()\<close>; \<open>ProgressInfo w s p\<close> is
  \<^verbatim>\<open>{workerId: w, status: s, progress: p}\<close> and \<open>JobProgress\<close> has the job id too;
  \<open>RecognizeResult d png\<close> is the object \<^verbatim>\<open>dump\<close> returned with its \<^verbatim>\<open>image\<close> field set.

  A call of a collaborator.  A \<^verbatim>\<open>TessBaseAPI\<close> instance is named by the number of
  instances constructed before it.
\<close>

datatype call =
    GetCore "string option"
  | Core
  | FS_method string "string list"
  | ReadCache string
  | WriteCache string bytes
  | Fetch bool string
  | Gunzip bytes
  | FS_mkdir string
  | FS_writeFile string bytes
  | FS_readFile string
  | TessBaseAPI_new nat
  | End nat
  | Init nat init_langs "int option"
  | SetVariable nat string pvalue
  | SetImage "nat option" "bytes option" "int option"
  | GetThresholdedImage nat
  | SetRectangle nat rect
  | Recognize nat
  | Dump nat params
  | Free nat
  | OSResults_new
  | DetectOS nat
  | Get_script_from_script_id int
  | TessPDFRenderer_new "bool option"
  | BeginDocument "string option"
  | AddImage "nat option"
  | EndDocument
  | Free_renderer

text \<open>\<open>Send p s d\<close> is \<^verbatim>\<open>send({...p, status: s, data: d})\<close>, what the emitter bound to the
  packet \<open>p\<close> does.\<close>

datatype event = Call call | Send packet status data

subsection \<open>The environment\<close>

record env =
  isWebWorker :: bool
  defaultParams :: params
  throws :: "call \<Rightarrow> error option"
  core_loads :: bool
  fs_result :: "string \<Rightarrow> string list \<Rightarrow> string"
  readCache :: "string \<Rightarrow> error + bytes option"
  fetch :: "string \<Rightarrow> error + bytes"
  gunzip :: "bytes \<Rightarrow> error + bytes"
  fileType :: "bytes \<Rightarrow> string option"
  isURL :: "string \<Rightarrow> bool"
  readFile :: "string \<Rightarrow> bytes"
  setImage :: "bytes option \<Rightarrow> nat"
  progress_percents :: "int list"
  dump :: "nat \<Rightarrow> params \<Rightarrow> string"
  detectOS :: "bytes option \<Rightarrow> bool"
  os_results :: "bytes option \<Rightarrow> os_result"
  schedule :: "nat list"

text \<open>
  A call with the same arguments has the same outcome each time it is made.
  \<open>throws env c\<close> is the exception the call \<open>c\<close> raises, if it raises one; the calls of
  the adapter that return a promise (\<^verbatim>\<open>readCache\<close>, \<^verbatim>\<open>fetch\<close> with \<^verbatim>\<open>arrayBuffer\<close>) and
  \<^verbatim>\<open>gunzip\<close> give their error or their value at once, \<open>Inr None\<close> being \<^verbatim>\<open>undefined\<close>.
  \<open>defaultParams\<close> is the object of \<^verbatim>\<open>./constants/defaultParams\<close>.
  \<open>fileType env d\<close> is the \<^verbatim>\<open>mime\<close> of what \<^verbatim>\<open>fileType\<close> returns, \<open>None\<close> when it
  returns \<^verbatim>\<open>undefined\<close>.  \<open>core_loads\<close> says whether the promise of \<^verbatim>\<open>Core\<close> resolves,
  \<open>progress_percents\<close> lists the percentages the engine reports through
  \<^verbatim>\<open>TesseractProgress\<close> while it recognises, and \<open>schedule\<close> is the order in which the
  event loop lets concurrent tasks go on.
\<close>

subsection \<open>The state of the worker\<close>

record wstate =
  TessModule :: bool
  loaded_by :: "packet option"
  api :: "nat option"
  latestJob :: "packet option"
  params :: params
  instances :: nat

text \<open>
  \<open>TessModule\<close> says whether the module variable holds the loaded module, and
  \<open>loaded_by\<close> is the packet of the \<^verbatim>\<open>load\<close> that created it, whose ids the progress
  callback given to the module has captured; \<open>api\<close> is \<^verbatim>\<open>null\<close> or an instance;
  \<open>latestJob\<close> is the emitter stored last, named by its packet; \<open>instances\<close> counts the
  instances constructed so far.  The script starts in \<open>initial_state\<close>.
\<close>

definition initial_state :: "env \<Rightarrow> wstate" where
  "initial_state env = \<lparr>TessModule = False, loaded_by = None, api = None, latestJob = None,
     params = defaultParams env, instances = 0\<rparr>"

type_synonym outcome = "event list \<times> wstate \<times> error option"

subsection \<open>Statements\<close>

text \<open>
  The statements a handler is made of: a call of a collaborator, which is recorded and
  may throw; a response; a \<^verbatim>\<open>throw\<close>; sequencing, which stops at the first exception;
  and \<^verbatim>\<open>try ... catch\<close>.
\<close>

definition call :: "env \<Rightarrow> call \<Rightarrow> wstate \<Rightarrow> outcome" where
  "call env c st = ([Call c], st, throws env c)"

definition send :: "packet \<Rightarrow> status \<Rightarrow> data \<Rightarrow> wstate \<Rightarrow> outcome" where
  "send p s d st = ([Send p s d], st, None)"

definition throw :: "error \<Rightarrow> wstate \<Rightarrow> outcome" where
  "throw err st = ([], st, Some err)"

definition skip :: "wstate \<Rightarrow> outcome" where
  "skip st = ([], st, None)"

definition then_do :: "outcome \<Rightarrow> (wstate \<Rightarrow> outcome) \<Rightarrow> outcome" where
  "then_do r f =
     (case r of
        (evs, st, Some err) \<Rightarrow> (evs, st, Some err)
      | (evs, st, None) \<Rightarrow> (case f st of (evs', st', r') \<Rightarrow> (evs @ evs', st', r')))"

definition try_catch :: "outcome \<Rightarrow> (error \<Rightarrow> wstate \<Rightarrow> outcome) \<Rightarrow> outcome" where
  "try_catch r h =
     (case r of
        (evs, st, Some err) \<Rightarrow> (case h err st of (evs', st', r') \<Rightarrow> (evs @ evs', st', r'))
      | (evs, st, None) \<Rightarrow> (evs, st, None))"

subsection \<open>setParameters\<close>

text \<open>The \<^verbatim>\<open>forEach\<close> over the keys that were kept: \<^verbatim>\<open>api.SetVariable(key, _params[key])\<close>
  for each, stopping at the first exception; \<^verbatim>\<open>api\<close> may be \<^verbatim>\<open>null\<close>.\<close>

fun forEach_SetVariable :: "env \<Rightarrow> nat option \<Rightarrow> params \<Rightarrow> event list \<times> error option" where
  "forEach_SetVariable env a [] = ([], None)"
| "forEach_SetVariable env None ((key, v) # kvs) = ([], Some (TypeError ''api.SetVariable''))"
| "forEach_SetVariable env (Some h) ((key, v) # kvs) =
     (case throws env (SetVariable h key v) of
        Some err \<Rightarrow> ([Call (SetVariable h key v)], Some err)
      | None \<Rightarrow>
          (case forEach_SetVariable env (Some h) kvs of
             (evs, r) \<Rightarrow> (Call (SetVariable h key v) # evs, r)))"

text \<open>\<^verbatim>\<open>{ ...params, ..._params }\<close>: the properties of the first object, each overwritten
  in place by the second one's value for its key, then the second one's new keys.  (Keys
  that are array indices, which JavaScript enumerates before the others, are not set
  apart: the names of parameters are not such keys.)\<close>

definition spread :: "params \<Rightarrow> params \<Rightarrow> params" where
  "spread old new = fold (\<lambda>(k, v). AList.update k v) new old"

text \<open>The handler takes the payload of its first argument; \<open>res\<close> is the emitter, absent
  when \<^verbatim>\<open>initialize\<close> calls the handler.\<close>

definition setParameters :: "env \<Rightarrow> payload option \<Rightarrow> packet option \<Rightarrow> wstate \<Rightarrow> outcome" where
  "setParameters env pl res st =
     (case pl of
        None \<Rightarrow> ([], st, Some (TypeError ''payload.params''))
      | Some p \<Rightarrow>
          (case p_params p of
             None \<Rightarrow> ([], st, Some (TypeError ''Object.keys(_params)''))
           | Some ps \<Rightarrow>
               (case forEach_SetVariable env (api st)
                       (filter (\<lambda>(k, v). \<not> prefix ''tessjs_'' k) ps) of
                  (evs, Some err) \<Rightarrow> (evs, st, Some err)
                | (evs, None) \<Rightarrow>
                    (let st' = st\<lparr>params := spread (params st) ps\<rparr>
                     in (evs @ (case res of None \<Rightarrow> [] | Some r \<Rightarrow> [Send r Resolve (Params (params st'))]),
                         st', None)))))"

subsection \<open>initialize\<close>

fun init_langs_of :: "langs \<Rightarrow> init_langs" where
  "init_langs_of (LangStr s) = InitStr s"
| "init_langs_of (LangArr ls) =
     InitJoin (map (\<lambda>l. case l of Code c \<Rightarrow> Inl c | Inline c d \<Rightarrow> Inr d) ls)"

text \<open>The body of the \<^verbatim>\<open>try\<close> block.\<close>

definition initialize_try :: "env \<Rightarrow> packet \<Rightarrow> init_langs \<Rightarrow> int option \<Rightarrow> wstate \<Rightarrow> outcome" where
  "initialize_try env packet ls oem_arg st0 =
     then_do (send packet Progress (ProgressInfo (workerId packet) ''initializing api'' 0) st0) (\<lambda>st.
     then_do (case api st of None \<Rightarrow> skip st | Some h \<Rightarrow> call env (End h) st) (\<lambda>st.
     then_do (if TessModule st then call env (TessBaseAPI_new (instances st)) st
              else throw (TypeError ''TessModule.TessBaseAPI'') st) (\<lambda>st.
     then_do (skip (st\<lparr>api := Some (instances st), instances := Suc (instances st)\<rparr>)) (\<lambda>st.
     then_do (case api st of None \<Rightarrow> throw (TypeError ''api.Init'') st
              | Some h \<Rightarrow> call env (Init h ls oem_arg) st) (\<lambda>st.
     then_do (skip (st\<lparr>params := defaultParams env\<rparr>)) (\<lambda>st.
     then_do (setParameters env (Some (no_payload\<lparr>p_params := Some (params st)\<rparr>)) None st) (\<lambda>st.
     then_do (send packet Progress (ProgressInfo (workerId packet) ''initialized api'' 1) st) (\<lambda>st.
     send packet Resolve Undefined st))))))))"

definition initialize :: "env \<Rightarrow> packet \<Rightarrow> wstate \<Rightarrow> outcome" where
  "initialize env packet st =
     (case payload packet of
        None \<Rightarrow> throw (TypeError ''payload.langs'') st
      | Some pl \<Rightarrow>
          (case langs pl of
             None \<Rightarrow> throw (TypeError ''_langs.map'') st
           | Some ls \<Rightarrow>
               try_catch (initialize_try env packet (init_langs_of ls) (oem pl) st)
                 (\<lambda>err. send packet Reject (ErrString err))))"

subsection \<open>detect and terminate\<close>

definition orientation_degrees :: "nat \<Rightarrow> int option" where
  "orientation_degrees oid = (if oid < 4 then Some ([0, 270, 180, 90] ! oid) else None)"

definition detect_try :: "env \<Rightarrow> packet \<Rightarrow> bytes option \<Rightarrow> wstate \<Rightarrow> outcome" where
  "detect_try env packet img st0 =
     then_do (call env (SetImage (api st0) img None) st0) (\<lambda>st.
     then_do (if TessModule st then call env OSResults_new st
              else throw (TypeError ''TessModule.OSResults'') st) (\<lambda>st.
     (case api st of
        None \<Rightarrow> throw (TypeError ''api.DetectOS'') st
      | Some h \<Rightarrow>
          then_do (call env (DetectOS h) st) (\<lambda>st.
          if \<not> detectOS env img then
            then_do (call env (End h) st) (\<lambda>st.
            then_do (call env (Free (setImage env img)) st) (\<lambda>st.
            send packet Reject (Str ''Failed to detect OS'') st))
          else
            (let best = os_results env img in
             then_do (call env (Free (setImage env img)) st) (\<lambda>st.
             then_do (call env (Get_script_from_script_id (script_id best)) st) (\<lambda>st.
             send packet Resolve
               (DetectResult (script_id best) (script_name best) (sconfidence best)
                  (orientation_degrees (orientation_id best)) (oconfidence best)) st)))))))"

definition detect :: "env \<Rightarrow> packet \<Rightarrow> wstate \<Rightarrow> outcome" where
  "detect env packet st =
     (case payload packet of
        None \<Rightarrow> throw (TypeError ''payload.image'') st
      | Some pl \<Rightarrow>
          try_catch (detect_try env packet (p_image pl) st)
            (\<lambda>err. send packet Reject (ErrString err)))"

definition terminate :: "env \<Rightarrow> packet \<Rightarrow> wstate \<Rightarrow> outcome" where
  "terminate env packet st =
     try_catch
       (then_do (case api st of None \<Rightarrow> skip st | Some h \<Rightarrow> call env (End h) st) (\<lambda>st.
        send packet Resolve Terminated st))
       (\<lambda>err. send packet Reject (ErrString err))"

subsection \<open>loadLanguage\<close>

text \<open>\<^verbatim>\<open>s.split(c)\<close> for a separator of one character: the pieces between the
  separators, of which there is always at least one.\<close>

fun split_on :: "char \<Rightarrow> string \<Rightarrow> string list" where
  "split_on sep [] = [[]]"
| "split_on sep (c # cs) =
     (if c = sep then [] # split_on sep cs
      else (case split_on sep cs of [] \<Rightarrow> [[c]] | w # ws \<Rightarrow> (c # w) # ws))"

fun lang_of :: "langspec \<Rightarrow> string" where
  "lang_of (Code c) = c"
| "lang_of (Inline c d) = c"

text \<open>The file names: \<^verbatim>\<open>`${cachePath || '.'}/${lang}.traineddata`\<close>, the same under
  \<^verbatim>\<open>dataPath\<close>, and \<^verbatim>\<open>`${path}/${lang}.traineddata${gzip ? '.gz' : ''}`\<close> with \<^verbatim>\<open>gzip\<close>
  being \<^verbatim>\<open>true\<close> when the option is absent.\<close>

definition or_dot :: "string option \<Rightarrow> string" where
  "or_dot p = (case p of None \<Rightarrow> ''.'' | Some d \<Rightarrow> if d = [] then ''.'' else d)"

definition cache_file :: "options \<Rightarrow> string \<Rightarrow> string" where
  "cache_file opts lang = or_dot (cachePath opts) @ ''/'' @ lang @ ''.traineddata''"

definition data_file :: "options \<Rightarrow> string \<Rightarrow> string" where
  "data_file opts lang = or_dot (dataPath opts) @ ''/'' @ lang @ ''.traineddata''"

definition lang_file :: "options \<Rightarrow> string \<Rightarrow> string \<Rightarrow> string" where
  "lang_file opts path lang =
     path @ ''/'' @ lang @ ''.traineddata''
       @ (if (case gzip opts of None \<Rightarrow> True | Some b \<Rightarrow> b) then ''.gz'' else [])"

text \<open>
  The \<^verbatim>\<open>try\<close> block of \<^verbatim>\<open>loadAndGunzipFile\<close>: the cache is read unless \<^verbatim>\<open>cacheMethod\<close> is
  \<^verbatim>\<open>refresh\<close> or \<^verbatim>\<open>none\<close>, when the reader is replaced by one that returns \<^verbatim>\<open>undefined\<close>.
  The result is the data found; \<open>None\<close> stands for every way into the \<^verbatim>\<open>catch\<close> block
  (nothing found, or the reader failed).
\<close>

definition from_cache :: "env \<Rightarrow> packet \<Rightarrow> options \<Rightarrow> string \<Rightarrow> event list \<times> bytes option" where
  "from_cache env packet opts lang =
     (if cacheMethod opts \<in> set [Some ''refresh'', Some ''none''] then ([], None)
      else
        (case readCache env (cache_file opts lang) of
           Inr (Some d) \<Rightarrow>
             ([Call (ReadCache (cache_file opts lang)),
               Send packet Progress
                 (ProgressInfo (workerId packet) ''loading language traineddata (from cache)'' (1 / 2))],
              Some d)
         | Inr None \<Rightarrow> ([Call (ReadCache (cache_file opts lang))], None)
         | Inl err \<Rightarrow> ([Call (ReadCache (cache_file opts lang))], None)))"

text \<open>The \<^verbatim>\<open>catch\<close> block: a code is fetched when \<^verbatim>\<open>langPath\<close> is a URL and read through
  \<^verbatim>\<open>adapter.readCache\<close> otherwise; an inline spec gives its own data.  \<open>Fetch True\<close> is
  the global \<^verbatim>\<open>fetch\<close>, \<open>Fetch False\<close> is \<^verbatim>\<open>adapter.fetch\<close>.\<close>

definition is_url_path :: "env \<Rightarrow> string \<Rightarrow> bool" where
  "is_url_path env p \<longleftrightarrow>
     isURL env p \<or> prefix ''moz-extension://'' p \<or> prefix ''chrome-extension://'' p
       \<or> prefix ''file://'' p"

definition from_path :: "env \<Rightarrow> options \<Rightarrow> langspec \<Rightarrow> event list \<times> (error + bytes)" where
  "from_path env opts spec =
     (case spec of
        Inline c d \<Rightarrow> ([], Inr d)
      | Code lang \<Rightarrow>
          (case langPath opts of
             None \<Rightarrow> ([], Inl (TypeError ''langPath.startsWith''))
           | Some lp \<Rightarrow>
               if is_url_path env lp then
                 ([Call (Fetch (isWebWorker env) (lang_file opts lp lang))],
                  fetch env (lang_file opts lp lang))
               else
                 ([Call (ReadCache (lang_file opts lp lang))],
                  (case readCache env (lang_file opts lp lang) of
                     Inl err \<Rightarrow> Inl err
                   | Inr None \<Rightarrow> Inr []
                   | Inr (Some d) \<Rightarrow> Inr d))))"

definition obtain_data :: "env \<Rightarrow> packet \<Rightarrow> options \<Rightarrow> langspec \<Rightarrow> event list \<times> (error + bytes)" where
  "obtain_data env packet opts spec =
     (case from_cache env packet opts (lang_of spec) of
        (evs, Some d) \<Rightarrow> (evs, Inr d)
      | (evs, None) \<Rightarrow> (case from_path env opts spec of (evs', r) \<Rightarrow> (evs @ evs', r)))"

text \<open>The type of the buffer is sniffed and a gzip buffer is decompressed.\<close>

definition gunzip_if_gzip :: "env \<Rightarrow> bytes \<Rightarrow> event list \<times> (error + bytes)" where
  "gunzip_if_gzip env d =
     (if fileType env d = Some ''application/gzip'' then ([Call (Gunzip d)], gunzip env d)
      else ([], Inr d))"

text \<open>With the module loaded the data is written to its filesystem, after a \<^verbatim>\<open>mkdir\<close>
  of a \<^verbatim>\<open>dataPath\<close> that is given; an exception of \<^verbatim>\<open>mkdir\<close> is sent as a rejection and
  the function goes on.\<close>

definition write_traineddata ::
  "env \<Rightarrow> packet \<Rightarrow> options \<Rightarrow> wstate \<Rightarrow> string \<Rightarrow> bytes \<Rightarrow> event list \<times> error option" where
  "write_traineddata env packet opts st lang d =
     (if TessModule st then
        ((case dataPath opts of
            None \<Rightarrow> []
          | Some dp \<Rightarrow>
              if dp = [] then []
              else Call (FS_mkdir dp) #
                (case throws env (FS_mkdir dp) of
                   Some err \<Rightarrow> [Send packet Reject (ErrString err)]
                 | None \<Rightarrow> []))
           @ [Call (FS_writeFile (data_file opts lang) d)],
         throws env (FS_writeFile (data_file opts lang) d))
      else ([], None))"

definition to_cache :: "env \<Rightarrow> options \<Rightarrow> string \<Rightarrow> bytes \<Rightarrow> event list \<times> error option" where
  "to_cache env opts lang d =
     (if cacheMethod opts \<in> set [Some ''write'', Some ''refresh'', None] then
        ([Call (WriteCache (cache_file opts lang) d)],
         throws env (WriteCache (cache_file opts lang) d))
      else ([], None))"

text \<open>One run of \<^verbatim>\<open>loadAndGunzipFile\<close>: what it does, in order, and the error its promise
  is rejected with or the data it is resolved with.\<close>

definition loadAndGunzipFile ::
  "env \<Rightarrow> packet \<Rightarrow> options \<Rightarrow> wstate \<Rightarrow> langspec \<Rightarrow> event list \<times> (error + bytes)" where
  "loadAndGunzipFile env packet opts st spec =
     (case obtain_data env packet opts spec of
        (e1, Inl err) \<Rightarrow> (e1, Inl err)
      | (e1, Inr raw) \<Rightarrow>
          (case gunzip_if_gzip env raw of
             (e2, Inl err) \<Rightarrow> (e1 @ e2, Inl err)
           | (e2, Inr d) \<Rightarrow>
               (case write_traineddata env packet opts st (lang_of spec) d of
                  (e3, Some err) \<Rightarrow> (e1 @ e2 @ e3, Inl err)
                | (e3, None) \<Rightarrow>
                    (case to_cache env opts (lang_of spec) d of
                       (e4, Some err) \<Rightarrow> (e1 @ e2 @ e3 @ e4, Inl err)
                     | (e4, None) \<Rightarrow> (e1 @ e2 @ e3 @ e4, Inr d)))))"

text \<open>
  \<^verbatim>\<open>Promise.all\<close> over the runs, which are concurrent: each run is the list of its
  steps, its events and then the settling of its promise, and the event loop merges the
  lists in some order.  The order is the schedule, a list of indices of runs, each
  letting that run take its next step; runs that have steps left when the schedule ends
  finish one after the other.  Every order in which the runs can go on is the merge
  under some schedule.  A run is not interrupted between two \<^verbatim>\<open>await\<close>s, so some
  schedules give orders that cannot happen; what holds under every schedule holds of
  the orders that can.
\<close>

datatype step = Ev event | Settled "error option"

definition task_steps :: "event list \<times> (error + bytes) \<Rightarrow> step list" where
  "task_steps t =
     map Ev (fst t) @ [Settled (case snd t of Inl err \<Rightarrow> Some err | Inr d \<Rightarrow> None)]"

fun interleave :: "nat list \<Rightarrow> 'a list list \<Rightarrow> 'a list" where
  "interleave [] xss = concat xss"
| "interleave (i # sched) xss =
     (if i < length xss then
        (case xss ! i of
           [] \<Rightarrow> interleave sched xss
         | x # xs \<Rightarrow> x # interleave sched (xss[i := xs]))
      else interleave sched xss)"

fun events_of :: "step list \<Rightarrow> event list" where
  "events_of [] = []"
| "events_of (Ev e # ss) = e # events_of ss"
| "events_of (Settled r # ss) = events_of ss"

text \<open>
  What follows \<^verbatim>\<open>await Promise.all(...)\<close> runs when the last pending run has settled,
  or, in the \<^verbatim>\<open>catch\<close> block, when the first run is rejected; the other runs go on.
  \<open>promise_all k n ss\<close> are the events of the steps \<open>ss\<close> with those of the continuation
  \<open>k\<close> put in, \<open>n\<close> runs being pending.
\<close>

fun promise_all :: "(error option \<Rightarrow> event list) \<Rightarrow> nat \<Rightarrow> step list \<Rightarrow> event list" where
  "promise_all k 0 ss = k None @ events_of ss"
| "promise_all k (Suc n) [] = []"
| "promise_all k (Suc n) (Ev e # ss) = e # promise_all k (Suc n) ss"
| "promise_all k (Suc n) (Settled (Some err) # ss) = k (Some err) @ events_of ss"
| "promise_all k (Suc n) (Settled None # ss) = promise_all k n ss"

definition specs_of :: "langs \<Rightarrow> langspec list" where
  "specs_of ls = (case ls of LangStr s \<Rightarrow> map Code (split_on CHR ''+'' s) | LangArr xs \<Rightarrow> xs)"

text \<open>The end of \<^verbatim>\<open>loadLanguage\<close>: after the \<^verbatim>\<open>await\<close>, or in the \<^verbatim>\<open>catch\<close> block.\<close>

definition loadLanguage_catch :: "env \<Rightarrow> packet \<Rightarrow> error \<Rightarrow> event list" where
  "loadLanguage_catch env packet err =
     (if isWebWorker env \<and> instanceof_DOMException err then []
      else [Send packet Reject (ErrString err)])"

fun loadLanguage_end :: "env \<Rightarrow> packet \<Rightarrow> langs \<Rightarrow> error option \<Rightarrow> event list" where
  "loadLanguage_end env packet ls None =
     [Send packet Progress (ProgressInfo (workerId packet) ''loaded language traineddata'' 1),
      Send packet Resolve (Langs ls)]"
| "loadLanguage_end env packet ls (Some err) = loadLanguage_catch env packet err"

text \<open>
  The handler is an \<^verbatim>\<open>async\<close> function: an exception of its parameter destructuring
  rejects the promise it returns, which nobody handles, and nothing is sent.  It changes
  none of the module-level variables, and \<^verbatim>\<open>TessModule\<close> is read as it is when the
  handler is called.  Its events are listed together, those after its first \<^verbatim>\<open>await\<close>
  too, which happen when the dispatcher has returned.
\<close>

definition loadLanguage :: "env \<Rightarrow> packet \<Rightarrow> wstate \<Rightarrow> outcome" where
  "loadLanguage env packet st =
     (case payload packet of
        None \<Rightarrow> skip st
      | Some pl \<Rightarrow>
          (case options pl of
             None \<Rightarrow> skip st
           | Some opts \<Rightarrow>
               (Send packet Progress
                  (ProgressInfo (workerId packet) ''loading language traineddata'' 0) #
                (case langs pl of
                   None \<Rightarrow> loadLanguage_catch env packet (TypeError ''langs.map'')
                 | Some ls \<Rightarrow>
                     promise_all (loadLanguage_end env packet ls) (length (specs_of ls))
                       (interleave (schedule env)
                          (map (\<lambda>spec. task_steps (loadAndGunzipFile env packet opts st spec))
                             (specs_of ls)))),
                st, None)))"

subsection \<open>load and FS\<close>

text \<open>
  \<^verbatim>\<open>load\<close> creates the module once.  What it passes to \<^verbatim>\<open>then\<close> runs when the promise of
  \<^verbatim>\<open>Core\<close> resolves; when the promise is rejected nothing handles it.  The calls of
  \<^verbatim>\<open>setLogging\<close> and \<^verbatim>\<open>log\<close>, here and in the other handlers, are left out: they send
  nothing and change none of the variables.
\<close>

definition load :: "env \<Rightarrow> packet \<Rightarrow> wstate \<Rightarrow> outcome" where
  "load env packet st0 =
     (case payload packet of
        None \<Rightarrow> throw (TypeError ''payload.options'') st0
      | Some pl \<Rightarrow>
          (case options pl of
             None \<Rightarrow> throw (TypeError ''options.corePath'') st0
           | Some opts \<Rightarrow>
               if \<not> TessModule st0 then
                 then_do (call env (GetCore (corePath opts)) st0) (\<lambda>st.
                 then_do (send packet Progress
                            (ProgressInfo (workerId packet) ''initializing tesseract'' 0) st) (\<lambda>st.
                 then_do (call env Core st) (\<lambda>st.
                 if core_loads env then
                   then_do (skip (st\<lparr>TessModule := True, loaded_by := Some packet\<rparr>)) (\<lambda>st.
                   then_do (send packet Progress
                              (ProgressInfo (workerId packet) ''initialized tesseract'' 1) st) (\<lambda>st.
                   send packet Resolve Loaded st))
                 else skip st)))
               else send packet Resolve Loaded st0))"

definition FS :: "env \<Rightarrow> packet \<Rightarrow> wstate \<Rightarrow> outcome" where
  "FS env packet st0 =
     (case payload packet of
        None \<Rightarrow> throw (TypeError ''payload.method'') st0
      | Some pl \<Rightarrow>
          if \<not> TessModule st0 then throw (TypeError ''TessModule.FS'') st0
          else
            (case fs_args pl of
               None \<Rightarrow> throw (TypeError ''...args'') st0
             | Some as \<Rightarrow>
                 (let m = (case fs_method pl of None \<Rightarrow> ''undefined'' | Some m \<Rightarrow> m)
                  in then_do (call env (FS_method m as) st0) (\<lambda>st.
                     send packet Resolve (FSResult (fs_result env m as)) st))))"

subsection \<open>recognize, threshold and getPDF\<close>

definition encodings :: string where
  "encodings = ''ABCDEFGHIJKLMNOPQRSTUVWXYZabcdefghijklmnopqrstuvwxyz0123456789+/''"

definition enc :: "32 word \<Rightarrow> char" where
  "enc a = encodings ! unat a"

text \<open>The main loop takes three bytes at a time; one or two bytes that remain are
  padded.  The bitwise operators of JavaScript work on 32-bit integers.\<close>

fun arrayBufferToBase64 :: "bytes \<Rightarrow> string" where
  "arrayBufferToBase64 [] = []"
| "arrayBufferToBase64 [b0] =
     (let chunk = (ucast b0 :: 32 word);
          a = drop_bit 2 (chunk AND 252);
          b = push_bit 4 (chunk AND 3)
      in [enc a, enc b] @ ''=='')"
| "arrayBufferToBase64 [b0, b1] =
     (let chunk = (push_bit 8 (ucast b0) OR ucast b1 :: 32 word);
          a = drop_bit 10 (chunk AND 64512);
          b = drop_bit 4 (chunk AND 1008);
          c = push_bit 2 (chunk AND 15)
      in [enc a, enc b, enc c] @ ''='')"
| "arrayBufferToBase64 (b0 # b1 # b2 # bs) =
     (let chunk = (push_bit 16 (ucast b0) OR push_bit 8 (ucast b1) OR ucast b2 :: 32 word);
          a = drop_bit 18 (chunk AND 16515072);
          b = drop_bit 12 (chunk AND 258048);
          c = drop_bit 6 (chunk AND 4032);
          d = chunk AND 63
      in [enc a, enc b, enc c, enc d] @ arrayBufferToBase64 bs)"

text \<open>The callback \<^verbatim>\<open>TesseractProgress\<close> that \<^verbatim>\<open>load\<close> gave to the module: it answers
  through the latest emitter, with the ids of the packet of \<^verbatim>\<open>load\<close>.\<close>

definition TesseractProgress :: "wstate \<Rightarrow> int \<Rightarrow> event list" where
  "TesseractProgress st percent =
     (case (latestJob st, loaded_by st) of
        (Some job, Some l) \<Rightarrow>
          [Send job Progress
             (JobProgress (workerId l) (jobId l) ''recognizing text''
                (max 0 ((of_int percent - 30) / 70)))]
      | _ \<Rightarrow> [])"

definition call_Recognize :: "env \<Rightarrow> nat \<Rightarrow> wstate \<Rightarrow> outcome" where
  "call_Recognize env h st =
     (Call (Recognize h) # concat (map (TesseractProgress st) (progress_percents env)), st,
      throws env (Recognize h))"

definition thresholded_png :: "env \<Rightarrow> string" where
  "thresholded_png env = ''data:image/png;base64,'' @ arrayBufferToBase64 (readFile env ''/debug.png'')"

definition recognize_try :: "env \<Rightarrow> packet \<Rightarrow> payload \<Rightarrow> options \<Rightarrow> wstate \<Rightarrow> outcome" where
  "recognize_try env packet pl opts st0 =
     then_do (call env (SetImage (api st0) (p_image pl)
                (Some (case angle opts of None \<Rightarrow> 0 | Some a \<Rightarrow> a))) st0) (\<lambda>st.
     (case api st of
        None \<Rightarrow> throw (TypeError ''api.GetThresholdedImage'') st
      | Some h \<Rightarrow>
          then_do (call env (GetThresholdedImage h) st) (\<lambda>st.
          then_do (if TessModule st then call env (FS_readFile ''/debug.png'') st
                   else throw (TypeError ''TessModule.FS'') st) (\<lambda>st.
          then_do (case rectangle opts of None \<Rightarrow> skip st
                   | Some r \<Rightarrow> call env (SetRectangle h r) st) (\<lambda>st.
          then_do (call_Recognize env h st) (\<lambda>st.
          then_do (call env (Dump h (params st)) st) (\<lambda>st.
          then_do (send packet Resolve
                     (RecognizeResult (dump env h (params st)) (thresholded_png env)) st) (\<lambda>st.
          call env (Free (setImage env (p_image pl))) st))))))))"

definition recognize :: "env \<Rightarrow> packet \<Rightarrow> wstate \<Rightarrow> outcome" where
  "recognize env packet st =
     (case payload packet of
        None \<Rightarrow> throw (TypeError ''payload.image'') st
      | Some pl \<Rightarrow>
          (case options pl of
             None \<Rightarrow> throw (TypeError ''options.rectangle'') st
           | Some opts \<Rightarrow>
               try_catch (recognize_try env packet pl opts st)
                 (\<lambda>err. send packet Reject (ErrString err))))"

definition threshold_try :: "env \<Rightarrow> packet \<Rightarrow> payload \<Rightarrow> options \<Rightarrow> wstate \<Rightarrow> outcome" where
  "threshold_try env packet pl opts st0 =
     then_do (call env (SetImage (api st0) (p_image pl) (angle opts)) st0) (\<lambda>st.
     (case api st of
        None \<Rightarrow> throw (TypeError ''api.GetThresholdedImage'') st
      | Some h \<Rightarrow>
          then_do (call env (GetThresholdedImage h) st) (\<lambda>st.
          then_do (if TessModule st then call env (FS_readFile ''/debug.png'') st
                   else throw (TypeError ''TessModule.FS'') st) (\<lambda>st.
          then_do (call env (Free (setImage env (p_image pl))) st) (\<lambda>st.
          send packet Resolve (Str (thresholded_png env)) st)))))"

definition threshold :: "env \<Rightarrow> packet \<Rightarrow> wstate \<Rightarrow> outcome" where
  "threshold env packet st =
     (case payload packet of
        None \<Rightarrow> throw (TypeError ''payload.image'') st
      | Some pl \<Rightarrow>
          (case options pl of
             None \<Rightarrow> throw (TypeError ''options.angle'') st
           | Some opts \<Rightarrow>
               try_catch (threshold_try env packet pl opts st)
                 (\<lambda>err. send packet Reject (ErrString err))))"

definition getPDF :: "env \<Rightarrow> packet \<Rightarrow> wstate \<Rightarrow> outcome" where
  "getPDF env packet st0 =
     (case payload packet of
        None \<Rightarrow> throw (TypeError ''payload.title'') st0
      | Some pl \<Rightarrow>
          if \<not> TessModule st0 then throw (TypeError ''TessModule.TessPDFRenderer'') st0
          else
            then_do (call env (TessPDFRenderer_new (textonly pl)) st0) (\<lambda>st.
            then_do (call env (BeginDocument (title pl)) st) (\<lambda>st.
            then_do (call env (AddImage (api st)) st) (\<lambda>st.
            then_do (call env EndDocument st) (\<lambda>st.
            then_do (call env Free_renderer st) (\<lambda>st.
            then_do (call env (FS_readFile ''/tesseract-ocr.pdf'') st) (\<lambda>st.
            send packet Resolve (Bytes (readFile env ''/tesseract-ocr.pdf'')) st)))))))"

subsection \<open>dispatchHandlers\<close>

text \<open>The object out of which the handler is taken: its own properties.\<close>

definition handlers :: "(string \<times> (env \<Rightarrow> packet \<Rightarrow> wstate \<Rightarrow> outcome)) list" where
  "handlers =
     [(''load'', load),
      (''FS'', FS),
      (''loadLanguage'', loadLanguage),
      (''initialize'', initialize),
      (''setParameters'', \<lambda>env packet. setParameters env (payload packet) (Some packet)),
      (''recognize'', recognize),
      (''threshold'', threshold),
      (''getPDF'', getPDF),
      (''detect'', detect),
      (''terminate'', terminate)]"

text \<open>
  The object is an object literal, so a name it has no property of its own for is looked
  up in \<^verbatim>\<open>Object.prototype\<close>.  Under the names below the lookup gives a built-in
  function; called with the packet and the emitter each of them returns without an
  exception and sends nothing.  Under every other name the lookup gives a value that is
  not a function (\<^verbatim>\<open>undefined\<close>, or the prototype itself for \<^verbatim>\<open>__proto__\<close>), and the call
  is a \<^verbatim>\<open>TypeError\<close>.
\<close>

definition Object_prototype_methods :: "string list" where
  "Object_prototype_methods =
     [''constructor'', ''hasOwnProperty'', ''isPrototypeOf'', ''propertyIsEnumerable'',
      ''toLocaleString'', ''toString'', ''valueOf'', ''__defineGetter__'',
      ''__defineSetter__'', ''__lookupGetter__'', ''__lookupSetter__'']"

definition dispatchHandlers :: "env \<Rightarrow> packet \<Rightarrow> wstate \<Rightarrow> outcome" where
  "dispatchHandlers env packet st0 =
     then_do (skip (st0\<lparr>latestJob := Some packet\<rparr>)) (\<lambda>st.
     try_catch
       (case map_of handlers (action packet) of
          Some handler \<Rightarrow> handler env packet st
        | None \<Rightarrow>
            if action packet \<in> set Object_prototype_methods then skip st
            else throw (TypeError ''handlers[packet.action]'') st)
       (\<lambda>err. send packet Reject (ErrString err)))"

subsection \<open>Reading a list of events\<close>

text \<open>The calls in a list of events, the paths given to \<^verbatim>\<open>readCache\<close>, the paths and
  data given to \<^verbatim>\<open>writeCache\<close>, the arguments of the calls of \<^verbatim>\<open>fetch\<close>, and the statuses of
  the responses, each in order.\<close>

fun calls_of :: "event list \<Rightarrow> call list" where
  "calls_of [] = []"
| "calls_of (Call c # evs) = c # calls_of evs"
| "calls_of (Send p s d # evs) = calls_of evs"

fun readCache_calls :: "event list \<Rightarrow> string list" where
  "readCache_calls [] = []"
| "readCache_calls (Call (ReadCache p) # evs) = p # readCache_calls evs"
| "readCache_calls (e # evs) = readCache_calls evs"

fun writeCache_calls :: "event list \<Rightarrow> (string \<times> bytes) list" where
  "writeCache_calls [] = []"
| "writeCache_calls (Call (WriteCache p d) # evs) = (p, d) # writeCache_calls evs"
| "writeCache_calls (e # evs) = writeCache_calls evs"

fun fetch_calls :: "event list \<Rightarrow> (bool \<times> string) list" where
  "fetch_calls [] = []"
| "fetch_calls (Call (Fetch b u) # evs) = (b, u) # fetch_calls evs"
| "fetch_calls (e # evs) = fetch_calls evs"

fun statuses :: "event list \<Rightarrow> status list" where
  "statuses [] = []"
| "statuses (Send p s d # evs) = s # statuses evs"
| "statuses (Call c # evs) = statuses evs"

fun is_settled :: "step \<Rightarrow> bool" where
  "is_settled (Settled r) = True"
| "is_settled (Ev e) = False"

text \<open>\<^verbatim>\<open>ws.join(c)\<close>, against which \<open>split_on\<close> is read.\<close>

fun join_on :: "char \<Rightarrow> string list \<Rightarrow> string" where
  "join_on sep [] = []"
| "join_on sep [w] = w"
| "join_on sep (w # v # ws) = w @ sep # join_on sep (v # ws)"

subsection \<open>Example values\<close>

text \<open>
  An environment in which every call returns normally: a file for \<^verbatim>\<open>eng\<close> lies under
  \<^verbatim>\<open>/tessdata\<close>, the cache is empty, and a buffer is gzip when it starts with the bytes
  31, 139, 8.  A packet, and the state after \<^verbatim>\<open>load\<close> and \<^verbatim>\<open>initialize\<close>.
\<close>

definition example_env :: env where
  "example_env =
     \<lparr>isWebWorker = False,
      defaultParams = [(''tessedit_pageseg_mode'', PStr ''6''), (''tessedit_char_whitelist'', PStr []),
        (''tessjs_create_hocr'', PStr ''1''), (''tessjs_create_tsv'', PStr ''1'')],
      throws = (\<lambda>c. None),
      core_loads = True,
      fs_result = (\<lambda>m as. []),
      readCache = (\<lambda>p. if p = ''/tessdata/eng.traineddata.gz'' then Inr (Some [31, 139, 8, 1]) else Inr None),
      fetch = (\<lambda>u. Inr [31, 139, 8, 2]),
      gunzip = (\<lambda>d. Inr (drop 3 d)),
      fileType = (\<lambda>d. if take 3 d = [31, 139, 8] then Some ''application/gzip'' else None),
      isURL = prefix ''https://'',
      readFile = (\<lambda>p. []),
      setImage = (\<lambda>i. 0),
      progress_percents = [],
      dump = (\<lambda>h ps. []),
      detectOS = (\<lambda>i. False),
      os_results = (\<lambda>i. \<lparr>orientation_id = 0, script_id = 0, sconfidence = 0, oconfidence = 0, script_name = []\<rparr>),
      schedule = []\<rparr>"

definition job :: "string \<Rightarrow> payload \<Rightarrow> packet" where
  "job a pl = \<lparr>workerId = ''worker-1'', jobId = ''job-1'', action = a, payload = Some pl\<rparr>"

definition initialized_state :: wstate where
  "initialized_state =
     \<lparr>TessModule = True, loaded_by = Some (job ''load'' (no_payload\<lparr>options := Some no_options\<rparr>)),
      api = Some 0, latestJob = None, params = defaultParams example_env, instances = 1\<rparr>"

text \<open>Payloads of \<^verbatim>\<open>setParameters\<close>, a state whose retained parameters are not the
  default ones, and payloads of \<^verbatim>\<open>initialize\<close> and \<^verbatim>\<open>detect\<close>.\<close>

definition hocr_and_whitelist :: payload where
  "hocr_and_whitelist =
     no_payload\<lparr>p_params := Some [(''tessjs_create_hocr'', PStr ''0''), (''tessedit_char_whitelist'', PStr ''abc'')]\<rparr>"

definition whitelist_only :: payload where
  "whitelist_only = no_payload\<lparr>p_params := Some [(''tessedit_char_whitelist'', PStr ''abc'')]\<rparr>"

definition hocr_only :: payload where
  "hocr_only = no_payload\<lparr>p_params := Some [(''tessjs_create_hocr'', PStr ''0'')]\<rparr>"

definition custom_state :: wstate where
  "custom_state = initialized_state\<lparr>params := [(''tessedit_pageseg_mode'', PStr ''3'')]\<rparr>"

definition eng :: payload where
  "eng = no_payload\<lparr>langs := Some (LangStr ''eng''), oem := Some 1\<rparr>"

definition page :: payload where
  "page = no_payload\<lparr>p_image := Some [137, 80, 78, 71]\<rparr>"

text \<open>Options and payloads of \<^verbatim>\<open>loadLanguage\<close>: a \<^verbatim>\<open>langPath\<close> that is a directory and
  one that is a URL, both with \<^verbatim>\<open>cacheMethod\<close> \<^verbatim>\<open>none\<close>; an inline spec with the default
  options and with \<^verbatim>\<open>cacheMethod\<close> \<^verbatim>\<open>none\<close>; two codes in one string; a \<^verbatim>\<open>dataPath\<close>.\<close>

definition tessdata_local :: options where
  "tessdata_local = no_options\<lparr>langPath := Some ''/tessdata'', cacheMethod := Some ''none''\<rparr>"

definition tessdata_url :: options where
  "tessdata_url = no_options\<lparr>langPath := Some ''https://tessdata.example/4.0.0'',
     cacheMethod := Some ''none''\<rparr>"

definition eng_list :: payload where
  "eng_list = no_payload\<lparr>langs := Some (LangArr [Code ''eng'']), options := Some tessdata_local\<rparr>"



definition eng_fra :: payload where
  "eng_fra = no_payload\<lparr>langs := Some (LangStr ''eng+fra''), options := Some tessdata_url\<rparr>"

definition eng_into_data :: payload where
  "eng_into_data = no_payload\<lparr>langs := Some (LangStr ''eng''),
     options := Some (tessdata_url\<lparr>dataPath := Some ''/data''\<rparr>)\<rparr>"


definition two_runs_env :: env where
  "two_runs_env = example_env\<lparr>schedule := [0, Suc 0]\<rparr>"

definition data_exists_env :: env where
  "data_exists_env = example_env\<lparr>throws :=
     (\<lambda>c. if c = FS_mkdir ''/data'' then Some (Failure ''ErrnoError: FS error'') else None)\<rparr>"


section \<open>Properties\<close>

subsection \<open>The retained parameters\<close>

lemma forEach_SetVariable_ok:
  "\<forall>(k, v) \<in> set kvs. throws env (SetVariable h k v) = None \<Longrightarrow>
   forEach_SetVariable env (Some h) kvs = (map (\<lambda>(k, v). Call (SetVariable h k v)) kvs, None)"
  by (induction kvs) auto

lemma forEach_SetVariable_events:
  "e \<in> set (fst (forEach_SetVariable env a kvs)) \<Longrightarrow>
   \<exists>h k v. a = Some h \<and> (k, v) \<in> set kvs \<and> e = Call (SetVariable h k v)"
proof (induction env a kvs rule: forEach_SetVariable.induct)
  case (1 env a)
  then show ?case by simp
next
  case (2 env key v kvs)
  then show ?case by simp
next
  case (3 env h key v kvs)
  then show ?case
    by (auto split: option.splits prod.splits)
qed

lemma setParameters_events:
  assumes "e \<in> set (fst (setParameters env (Some pl) res st))" and "p_params pl = Some ps"
  shows "(\<exists>h k v. api st = Some h \<and> (k, v) \<in> set ps \<and> \<not> prefix ''tessjs_'' k \<and> e = Call (SetVariable h k v))
       \<or> (\<exists>r. res = Some r \<and> e = Send r Resolve (Params (spread (params st) ps)))"
proof -
  obtain evs x where f: "forEach_SetVariable env (api st) (filter (\<lambda>(k, v). \<not> prefix ''tessjs_'' k) ps) = (evs, x)"
    by (cases "forEach_SetVariable env (api st) (filter (\<lambda>(k, v). \<not> prefix ''tessjs_'' k) ps)")
  from assms f have "e \<in> set evs \<or> (\<exists>r. res = Some r \<and> e = Send r Resolve (Params (spread (params st) ps)))"
    by (cases x; cases res) (auto simp: setParameters_def Let_def)
  moreover have "e \<in> set evs \<Longrightarrow> ?thesis"
    using forEach_SetVariable_events[of e env "api st" "filter (\<lambda>(k, v). \<not> prefix ''tessjs_'' k) ps"] f
    by auto
  ultimately show ?thesis by blast
qed

lemma setParameters_ok:
  assumes "p_params pl = Some ps" and "api st = Some h"
    and "\<forall>k v. throws env (SetVariable h k v) = None"
  shows "setParameters env (Some pl) res st =
     (map (\<lambda>(k, v). Call (SetVariable h k v)) (filter (\<lambda>(k, v). \<not> prefix ''tessjs_'' k) ps)
        @ (case res of None \<Rightarrow> [] | Some r \<Rightarrow> [Send r Resolve (Params (spread (params st) ps))]),
      st\<lparr>params := spread (params st) ps\<rparr>, None)"
proof -
  have "forEach_SetVariable env (Some h) (filter (\<lambda>(k, v). \<not> prefix ''tessjs_'' k) ps)
      = (map (\<lambda>(k, v). Call (SetVariable h k v)) (filter (\<lambda>(k, v). \<not> prefix ''tessjs_'' k) ps), None)"
    by (rule forEach_SetVariable_ok) (simp add: assms(3) split_beta)
  then show ?thesis
    using assms(1,2) by (cases res) (simp_all add: setParameters_def Let_def)
qed


lemma map_of_spread_fold:
  "map_of (spread old new) = fold (\<lambda>(k, v) m. m(k \<mapsto> v)) new (map_of old)"
  unfolding spread_def
  by (induction new arbitrary: old) (auto simp: AList.update_conv')

lemma fold_upd_distinct:
  "distinct (map fst new) \<Longrightarrow> fold (\<lambda>(k, v) m. m(k \<mapsto> v)) new m = m ++ map_of new"
proof (induction new arbitrary: m)
  case Nil
  then show ?case by simp
next
  case (Cons a new)
  obtain k v where a: "a = (k, v)" by (cases a)
  from Cons.prems a have k: "k \<notin> fst ` set new" and d: "distinct (map fst new)" by auto
  have "fold (\<lambda>(k, v) m. m(k \<mapsto> v)) (a # new) m = fold (\<lambda>(k, v) m. m(k \<mapsto> v)) new (m(k \<mapsto> v))"
    using a by simp
  also have "\<dots> = (m(k \<mapsto> v)) ++ map_of new"
    by (rule Cons.IH[OF d])
  also have "\<dots> = m ++ map_of (a # new)"
  proof -
    have "map_of new k = None" using k by (simp add: map_of_eq_None_iff)
    then show ?thesis
      using a by (auto simp: map_add_def fun_eq_iff split: option.splits)
  qed
  finally show ?case .
qed

lemma map_of_spread:
  "distinct (map fst new) \<Longrightarrow> map_of (spread old new) = map_of old ++ map_of new"
  by (simp add: map_of_spread_fold fold_upd_distinct)

lemma keys_spread: "fst ` set (spread old new) = fst ` set old \<union> fst ` set new"
  unfolding spread_def
proof (induction new arbitrary: old)
  case Nil
  then show ?case by simp
next
  case (Cons a new)
  obtain k v where a: "a = (k, v)" by (cases a)
  have "fst ` set (fold (\<lambda>(k, v). AList.update k v) (a # new) old)
      = fst ` set (AList.update k v old) \<union> fst ` set new"
    using Cons.IH[of "AList.update k v old"] a by simp
  also have "\<dots> = fst ` set old \<union> fst ` set (a # new)"
    unfolding AList.dom_update using a by auto
  finally show ?case .
qed

lemma spread_same:
  "\<forall>(k, v) \<in> set new. map_of old k = Some v \<Longrightarrow> spread old new = old"
  unfolding spread_def
  by (induction new) (auto simp: AList.update_triv)

lemma spread_self: "distinct (map fst ps) \<Longrightarrow> spread ps ps = ps"
  by (rule spread_same) auto

text \<open>
  Claim C6.  Of the keys of the mapping passed to \<^verbatim>\<open>setParameters\<close>, none that starts with
  \<^verbatim>\<open>tessjs_\<close> is ever passed to \<^verbatim>\<open>SetVariable\<close>: every \<^verbatim>\<open>SetVariable\<close> call of the handler
  has a key of the mapping without the prefix, with its value.  When there is an
  instance and its \<^verbatim>\<open>SetVariable\<close> returns normally, the calls are those for the keys
  without the prefix, in the order of the mapping, every key of the mapping (with the
  prefix or without) is in the retained set with its value, and every key without the
  prefix has been forwarded with its value.
\<close>

theorem setParameters_prefixed_keys_stay_local:
  assumes "p_params pl = Some ps"
  shows "(\<forall>h k v. Call (SetVariable h k v) \<in> set (fst (setParameters env (Some pl) res st))
            \<longrightarrow> \<not> prefix ''tessjs_'' k \<and> (k, v) \<in> set ps)
       \<and> (\<forall>h. api st = Some h \<and> (\<forall>k v. throws env (SetVariable h k v) = None)
                \<and> distinct (map fst ps) \<longrightarrow>
            fst (setParameters env (Some pl) res st)
              = map (\<lambda>(k, v). Call (SetVariable h k v)) (filter (\<lambda>(k, v). \<not> prefix ''tessjs_'' k) ps)
                  @ (case res of None \<Rightarrow> []
                     | Some r \<Rightarrow> [Send r Resolve (Params (spread (params st) ps))])
            \<and> (\<forall>(k, v) \<in> set ps.
                  map_of (params (fst (snd (setParameters env (Some pl) res st)))) k = Some v
                \<and> (\<not> prefix ''tessjs_'' k \<longrightarrow>
                     Call (SetVariable h k v) \<in> set (fst (setParameters env (Some pl) res st)))))"
proof (rule conjI)
  show "\<forall>h k v. Call (SetVariable h k v) \<in> set (fst (setParameters env (Some pl) res st))
            \<longrightarrow> \<not> prefix ''tessjs_'' k \<and> (k, v) \<in> set ps"
  proof (intro allI impI)
    fix h k v
    assume "Call (SetVariable h k v) \<in> set (fst (setParameters env (Some pl) res st))"
    from setParameters_events[OF this assms]
    show "\<not> prefix ''tessjs_'' k \<and> (k, v) \<in> set ps" by auto
  qed
next
  show "\<forall>h. api st = Some h \<and> (\<forall>k v. throws env (SetVariable h k v) = None)
                \<and> distinct (map fst ps) \<longrightarrow>
            fst (setParameters env (Some pl) res st)
              = map (\<lambda>(k, v). Call (SetVariable h k v)) (filter (\<lambda>(k, v). \<not> prefix ''tessjs_'' k) ps)
                  @ (case res of None \<Rightarrow> []
                     | Some r \<Rightarrow> [Send r Resolve (Params (spread (params st) ps))])
            \<and> (\<forall>(k, v) \<in> set ps.
                  map_of (params (fst (snd (setParameters env (Some pl) res st)))) k = Some v
                \<and> (\<not> prefix ''tessjs_'' k \<longrightarrow>
                     Call (SetVariable h k v) \<in> set (fst (setParameters env (Some pl) res st))))"
  proof (intro allI impI)
    fix h
    assume a: "api st = Some h \<and> (\<forall>k v. throws env (SetVariable h k v) = None) \<and> distinct (map fst ps)"
    then have ok: "setParameters env (Some pl) res st =
       (map (\<lambda>(k, v). Call (SetVariable h k v)) (filter (\<lambda>(k, v). \<not> prefix ''tessjs_'' k) ps)
          @ (case res of None \<Rightarrow> [] | Some r \<Rightarrow> [Send r Resolve (Params (spread (params st) ps))]),
        st\<lparr>params := spread (params st) ps\<rparr>, None)"
      using setParameters_ok[OF assms, of st h env res] by simp
    have retained: "map_of (params (fst (snd (setParameters env (Some pl) res st)))) k = Some v"
      if kv: "(k, v) \<in> set ps" for k v
    proof -
      from a have "map_of ps k = Some v" using kv by simp
      then show ?thesis using a by (simp add: ok map_of_spread)
    qed
    have forwarded: "Call (SetVariable h k v) \<in> set (fst (setParameters env (Some pl) res st))"
      if kv: "(k, v) \<in> set ps" and np: "\<not> prefix ''tessjs_'' k" for k v
    proof -
      have "(k, v) \<in> set (filter (\<lambda>(k, v). \<not> prefix ''tessjs_'' k) ps)" using kv np by simp
      then have "(\<lambda>(k, v). Call (SetVariable h k v)) (k, v)
          \<in> (\<lambda>(k, v). Call (SetVariable h k v)) ` set (filter (\<lambda>(k, v). \<not> prefix ''tessjs_'' k) ps)"
        by (rule imageI)
      then show ?thesis by (simp add: ok)
    qed
    show "fst (setParameters env (Some pl) res st)
              = map (\<lambda>(k, v). Call (SetVariable h k v)) (filter (\<lambda>(k, v). \<not> prefix ''tessjs_'' k) ps)
                  @ (case res of None \<Rightarrow> []
                     | Some r \<Rightarrow> [Send r Resolve (Params (spread (params st) ps))])
            \<and> (\<forall>(k, v) \<in> set ps.
                  map_of (params (fst (snd (setParameters env (Some pl) res st)))) k = Some v
                \<and> (\<not> prefix ''tessjs_'' k \<longrightarrow>
                     Call (SetVariable h k v) \<in> set (fst (setParameters env (Some pl) res st))))"
      using retained forwarded by (auto simp: ok)
  qed
qed

theorem setParameters_prefixed_keys_stay_local_witness:
  "p_params hocr_and_whitelist
     = Some [(''tessjs_create_hocr'', PStr ''0''), (''tessedit_char_whitelist'', PStr ''abc'')]
   \<and> api initialized_state = Some 0
   \<and> fst (setParameters example_env (Some hocr_and_whitelist) None initialized_state)
       = [Call (SetVariable 0 ''tessedit_char_whitelist'' (PStr ''abc''))]
   \<and> map_of (params (fst (snd (setParameters example_env (Some hocr_and_whitelist) None initialized_state))))
        ''tessjs_create_hocr'' = Some (PStr ''0'')"
  using setParameters_prefixed_keys_stay_local[of hocr_and_whitelist
      "[(''tessjs_create_hocr'', PStr ''0''), (''tessedit_char_whitelist'', PStr ''abc'')]"
      example_env None initialized_state]
  by (simp add: hocr_and_whitelist_def initialized_state_def example_env_def)

text \<open>
  Claim C7.  Two successive calls of \<^verbatim>\<open>setParameters\<close> on a live instance whose
  \<^verbatim>\<open>SetVariable\<close> returns normally: the retained set is the earlier one overridden by the
  first mapping and then by the second, so for each key the value written last wins; its
  keys are the earlier keys and those of both mappings; with disjoint keys both mappings
  are in it; a key of neither mapping (a default that was not overridden) keeps its
  value; and each call ends by resolving with the whole retained set as it is then.
\<close>

theorem setParameters_twice_merges:
  assumes p1: "p_params pl1 = Some ps1" and p2: "p_params pl2 = Some ps2"
    and d1: "distinct (map fst ps1)" and d2: "distinct (map fst ps2)"
    and h: "api st = Some h" and ok: "\<forall>k v. throws env (SetVariable h k v) = None"
    and c1: "setParameters env (Some pl1) (Some r1) st = (evs1, st1, x1)"
    and c2: "setParameters env (Some pl2) (Some r2) st1 = (evs2, st2, x2)"
  shows "x1 = None \<and> x2 = None
    \<and> map_of (params st2) = map_of (params st) ++ map_of ps1 ++ map_of ps2
    \<and> fst ` set (params st2) = fst ` set (params st) \<union> fst ` set ps1 \<union> fst ` set ps2
    \<and> (fst ` set ps1 \<inter> fst ` set ps2 = {} \<longrightarrow>
          (\<forall>(k, v) \<in> set ps1 \<union> set ps2. map_of (params st2) k = Some v))
    \<and> (\<forall>k. k \<notin> fst ` set ps1 \<union> fst ` set ps2 \<longrightarrow> map_of (params st2) k = map_of (params st) k)
    \<and> evs1 \<noteq> [] \<and> last evs1 = Send r1 Resolve (Params (params st1))
    \<and> params st1 = spread (params st) ps1
    \<and> evs2 \<noteq> [] \<and> last evs2 = Send r2 Resolve (Params (params st2))
    \<and> params st2 = spread (spread (params st) ps1) ps2"
proof -
  from setParameters_ok[OF p1 h ok, of "Some r1"] c1
  have e1: "evs1 = map (\<lambda>(k, v). Call (SetVariable h k v)) (filter (\<lambda>(k, v). \<not> prefix ''tessjs_'' k) ps1)
                @ [Send r1 Resolve (Params (spread (params st) ps1))]"
    and s1: "st1 = st\<lparr>params := spread (params st) ps1\<rparr>" and x1: "x1 = None"
    by simp_all
  have h1: "api st1 = Some h" using s1 h by simp
  from setParameters_ok[OF p2 h1 ok, of "Some r2"] c2
  have e2: "evs2 = map (\<lambda>(k, v). Call (SetVariable h k v)) (filter (\<lambda>(k, v). \<not> prefix ''tessjs_'' k) ps2)
                @ [Send r2 Resolve (Params (spread (params st1) ps2))]"
    and s2: "st2 = st1\<lparr>params := spread (params st1) ps2\<rparr>" and x2: "x2 = None"
    by simp_all
  have q1: "params st1 = spread (params st) ps1" using s1 by simp
  have q2: "params st2 = spread (spread (params st) ps1) ps2" using s2 q1 by simp
  have m: "map_of (params st2) = map_of (params st) ++ map_of ps1 ++ map_of ps2"
    by (simp add: q2 map_of_spread d1 d2)
  have keys: "fst ` set (params st2) = fst ` set (params st) \<union> fst ` set ps1 \<union> fst ` set ps2"
    by (simp add: q2 keys_spread)
  have both: "\<forall>(k, v) \<in> set ps1 \<union> set ps2. map_of (params st2) k = Some v"
    if dis: "fst ` set ps1 \<inter> fst ` set ps2 = {}"
  proof (intro ballI, clarify)
    fix k v assume "(k, v) \<in> set ps1 \<union> set ps2"
    then consider "(k, v) \<in> set ps1" | "(k, v) \<in> set ps2" by blast
    then show "map_of (params st2) k = Some v"
    proof cases
      case 1
      then have "map_of ps1 k = Some v" using d1 by simp
      moreover have "k \<notin> fst ` set ps2" using 1 dis by force
      then have "map_of ps2 k = None" by (simp add: map_of_eq_None_iff)
      ultimately show ?thesis by (simp add: m map_add_def)
    next
      case 2
      then have "map_of ps2 k = Some v" using d2 by simp
      then show ?thesis by (simp add: m)
    qed
  qed
  have others: "\<forall>k. k \<notin> fst ` set ps1 \<union> fst ` set ps2 \<longrightarrow> map_of (params st2) k = map_of (params st) k"
  proof (intro allI impI)
    fix k assume "k \<notin> fst ` set ps1 \<union> fst ` set ps2"
    then have "map_of ps1 k = None" "map_of ps2 k = None" by (simp_all add: map_of_eq_None_iff)
    then show "map_of (params st2) k = map_of (params st) k" by (simp add: m map_add_def)
  qed
  have l1: "evs1 \<noteq> [] \<and> last evs1 = Send r1 Resolve (Params (params st1))" by (simp add: e1 q1)
  have l2: "evs2 \<noteq> [] \<and> last evs2 = Send r2 Resolve (Params (params st2))" by (simp add: e2 q2 q1)
  show ?thesis using x1 x2 m keys both others l1 l2 q1 q2 by blast
qed

theorem setParameters_twice_merges_witness:
  "fst ` set [(''tessedit_char_whitelist'', PStr ''abc'')] \<inter> fst ` set [(''tessjs_create_hocr'', PStr ''0'')] = {}
   \<and> api initialized_state = Some 0
   \<and> params (fst (snd (setParameters example_env (Some hocr_only)
          (Some (job ''setParameters'' hocr_only))
          (fst (snd (setParameters example_env (Some whitelist_only)
             (Some (job ''setParameters'' whitelist_only)) initialized_state))))))
      = [(''tessedit_pageseg_mode'', PStr ''6''), (''tessedit_char_whitelist'', PStr ''abc''),
         (''tessjs_create_hocr'', PStr ''0''), (''tessjs_create_tsv'', PStr ''1'')]"
proof -
  let ?ps1 = "[(''tessedit_char_whitelist'', PStr ''abc'')]"
  let ?ps2 = "[(''tessjs_create_hocr'', PStr ''0'')]"
  let ?r1 = "job ''setParameters'' whitelist_only"
  let ?r2 = "job ''setParameters'' hocr_only"
  let ?c1 = "setParameters example_env (Some whitelist_only) (Some ?r1) initialized_state"
  let ?c2 = "setParameters example_env (Some hocr_only) (Some ?r2) (fst (snd ?c1))"
  have p1: "p_params whitelist_only = Some ?ps1" by (simp add: whitelist_only_def)
  have p2: "p_params hocr_only = Some ?ps2" by (simp add: hocr_only_def)
  have h: "api initialized_state = Some 0" by (simp add: initialized_state_def)
  have ok: "\<forall>k v. throws example_env (SetVariable 0 k v) = None" by (simp add: example_env_def)
  have c1: "?c1 = (fst ?c1, fst (snd ?c1), snd (snd ?c1))" by simp
  have c2: "?c2 = (fst ?c2, fst (snd ?c2), snd (snd ?c2))" by simp
  have "params (fst (snd ?c2)) = spread (spread (params initialized_state) ?ps1) ?ps2"
    using setParameters_twice_merges[OF p1 p2 _ _ h ok c1 c2] by simp
  then show ?thesis
    using h by (simp add: spread_def initialized_state_def example_env_def)
qed

subsection \<open>The instance: initialize and detect\<close>

lemmas statement_defs = then_do_def try_catch_def call_def send_def throw_def skip_def

lemma setParameters_state:
  assumes "p_params pl = Some ps"
  shows "fst (snd (setParameters env (Some pl) res st)) = st
       \<or> fst (snd (setParameters env (Some pl) res st)) = st\<lparr>params := spread (params st) ps\<rparr>"
  using assms
  by (cases "forEach_SetVariable env (api st) (filter (\<lambda>(k, v). \<not> prefix ''tessjs_'' k) ps)")
     (auto simp: setParameters_def Let_def split: option.splits)

lemma initialize_try_ok:
  assumes a: "api st = Some a" and m: "TessModule st"
    and e: "throws env (End a) = None"
    and n: "throws env (TessBaseAPI_new (instances st)) = None"
    and i: "throws env (Init (instances st) ls oem_arg) = None"
    and d: "distinct (map fst (defaultParams env))"
  shows "\<exists>post st' r. initialize_try env packet ls oem_arg st =
            ([Send packet Progress (ProgressInfo (workerId packet) ''initializing api'' 0),
              Call (End a), Call (TessBaseAPI_new (instances st)),
              Call (Init (instances st) ls oem_arg)] @ post, st', r)
          \<and> (\<forall>h. Call (TessBaseAPI_new h) \<notin> set post) \<and> (\<forall>h. Call (End h) \<notin> set post)
          \<and> api st' = Some (instances st) \<and> params st' = defaultParams env"
proof -
  let ?st2 = "st\<lparr>api := Some (instances st), instances := Suc (instances st), params := defaultParams env\<rparr>"
  let ?pl = "no_payload\<lparr>p_params := Some (defaultParams env)\<rparr>"
  let ?sp = "setParameters env (Some ?pl) None ?st2"
  have pp: "p_params ?pl = Some (defaultParams env)" by simp
  obtain evs st3 r where sp: "?sp = (evs, st3, r)" by (cases ?sp)
  have evs: "\<forall>e \<in> set evs. \<exists>h k v. e = Call (SetVariable h k v)"
  proof
    fix e assume "e \<in> set evs"
    then have "e \<in> set (fst ?sp)" by (simp add: sp)
    from setParameters_events[OF this pp] show "\<exists>h k v. e = Call (SetVariable h k v)" by auto
  qed
  have "st3 = ?st2 \<or> st3 = ?st2\<lparr>params := spread (params ?st2) (defaultParams env)\<rparr>"
    using setParameters_state[OF pp, of env None ?st2] by (simp add: sp)
  then have st3: "api st3 = Some (instances st) \<and> params st3 = defaultParams env"
    using d by (auto simp: spread_self)
  show ?thesis
  proof (cases r)
    case None
    then have "initialize_try env packet ls oem_arg st =
        ([Send packet Progress (ProgressInfo (workerId packet) ''initializing api'' 0),
          Call (End a), Call (TessBaseAPI_new (instances st)), Call (Init (instances st) ls oem_arg)]
          @ (evs @ [Send packet Progress (ProgressInfo (workerId packet) ''initialized api'' 1),
                    Send packet Resolve Undefined]), st3, None)"
      using a m e n i sp by (simp add: initialize_try_def statement_defs)
    moreover have "\<forall>h. Call (TessBaseAPI_new h) \<notin> set (evs @ [Send packet Progress (ProgressInfo (workerId packet) ''initialized api'' 1),
                    Send packet Resolve Undefined])" using evs by auto
    moreover have "\<forall>h. Call (End h) \<notin> set (evs @ [Send packet Progress (ProgressInfo (workerId packet) ''initialized api'' 1),
                    Send packet Resolve Undefined])" using evs by auto
    ultimately show ?thesis using st3 by blast
  next
    case (Some err)
    then have "initialize_try env packet ls oem_arg st =
        ([Send packet Progress (ProgressInfo (workerId packet) ''initializing api'' 0),
          Call (End a), Call (TessBaseAPI_new (instances st)), Call (Init (instances st) ls oem_arg)]
          @ evs, st3, Some err)"
      using a m e n i sp by (simp add: initialize_try_def statement_defs)
    moreover have "\<forall>h. Call (TessBaseAPI_new h) \<notin> set evs" using evs by auto
    moreover have "\<forall>h. Call (End h) \<notin> set evs" using evs by auto
    ultimately show ?thesis using st3 by blast
  qed
qed

lemma initialize_try_starts:
  assumes a: "api st = Some a"
  shows "\<exists>post. fst (initialize_try env packet ls oem_arg st) =
            Send packet Progress (ProgressInfo (workerId packet) ''initializing api'' 0)
              # Call (End a) # post"
  using a
  by (auto simp: initialize_try_def statement_defs split: option.splits prod.splits)

text \<open>
  Claim C3.  When \<^verbatim>\<open>initialize\<close> is called in a state that has an instance, the first
  call it makes is \<^verbatim>\<open>End\<close> on that instance, so every construction of an instance comes
  after it.  When the module is loaded and \<^verbatim>\<open>End\<close>, the constructor and \<^verbatim>\<open>Init\<close> return
  normally, the new instance is constructed once, right after the \<^verbatim>\<open>End\<close>, it is the
  instance of the state after the call, and the retained parameter set is the default
  set.
\<close>

theorem initialize_ends_previous_instance_first:
  assumes a: "api st = Some a" and pl: "payload packet = Some pl" and ls: "langs pl = Some ls"
  shows "(\<exists>post. fst (initialize env packet st) =
            Send packet Progress (ProgressInfo (workerId packet) ''initializing api'' 0)
              # Call (End a) # post)
       \<and> (TessModule st \<and> throws env (End a) = None
            \<and> throws env (TessBaseAPI_new (instances st)) = None
            \<and> throws env (Init (instances st) (init_langs_of ls) (oem pl)) = None
            \<and> distinct (map fst (defaultParams env)) \<longrightarrow>
          (\<exists>post. fst (initialize env packet st) =
              [Send packet Progress (ProgressInfo (workerId packet) ''initializing api'' 0),
               Call (End a), Call (TessBaseAPI_new (instances st)),
               Call (Init (instances st) (init_langs_of ls) (oem pl))] @ post
            \<and> (\<forall>h. Call (TessBaseAPI_new h) \<notin> set post) \<and> (\<forall>h. Call (End h) \<notin> set post))
          \<and> api (fst (snd (initialize env packet st))) = Some (instances st)
          \<and> params (fst (snd (initialize env packet st))) = defaultParams env)"
proof (rule conjI)
  obtain post where "fst (initialize_try env packet (init_langs_of ls) (oem pl) st) =
      Send packet Progress (ProgressInfo (workerId packet) ''initializing api'' 0) # Call (End a) # post"
    using initialize_try_starts[OF a] by blast
  then show "\<exists>post. fst (initialize env packet st) =
      Send packet Progress (ProgressInfo (workerId packet) ''initializing api'' 0) # Call (End a) # post"
    using pl ls
    by (cases "initialize_try env packet (init_langs_of ls) (oem pl) st")
       (auto simp: initialize_def try_catch_def send_def split: option.splits)
next
  show "TessModule st \<and> throws env (End a) = None
            \<and> throws env (TessBaseAPI_new (instances st)) = None
            \<and> throws env (Init (instances st) (init_langs_of ls) (oem pl)) = None
            \<and> distinct (map fst (defaultParams env)) \<longrightarrow>
          (\<exists>post. fst (initialize env packet st) =
              [Send packet Progress (ProgressInfo (workerId packet) ''initializing api'' 0),
               Call (End a), Call (TessBaseAPI_new (instances st)),
               Call (Init (instances st) (init_langs_of ls) (oem pl))] @ post
            \<and> (\<forall>h. Call (TessBaseAPI_new h) \<notin> set post) \<and> (\<forall>h. Call (End h) \<notin> set post))
          \<and> api (fst (snd (initialize env packet st))) = Some (instances st)
          \<and> params (fst (snd (initialize env packet st))) = defaultParams env"
  proof (rule impI)
    assume h: "TessModule st \<and> throws env (End a) = None
            \<and> throws env (TessBaseAPI_new (instances st)) = None
            \<and> throws env (Init (instances st) (init_langs_of ls) (oem pl)) = None
            \<and> distinct (map fst (defaultParams env))"
    then obtain post st' r where t: "initialize_try env packet (init_langs_of ls) (oem pl) st =
            ([Send packet Progress (ProgressInfo (workerId packet) ''initializing api'' 0),
              Call (End a), Call (TessBaseAPI_new (instances st)),
              Call (Init (instances st) (init_langs_of ls) (oem pl))] @ post, st', r)"
      and post: "\<forall>h. Call (TessBaseAPI_new h) \<notin> set post" "\<forall>h. Call (End h) \<notin> set post"
      and st': "api st' = Some (instances st)" "params st' = defaultParams env"
      using initialize_try_ok[OF a, of env "init_langs_of ls" "oem pl" packet] by blast
    show "(\<exists>post. fst (initialize env packet st) =
              [Send packet Progress (ProgressInfo (workerId packet) ''initializing api'' 0),
               Call (End a), Call (TessBaseAPI_new (instances st)),
               Call (Init (instances st) (init_langs_of ls) (oem pl))] @ post
            \<and> (\<forall>h. Call (TessBaseAPI_new h) \<notin> set post) \<and> (\<forall>h. Call (End h) \<notin> set post))
          \<and> api (fst (snd (initialize env packet st))) = Some (instances st)
          \<and> params (fst (snd (initialize env packet st))) = defaultParams env"
    proof (cases r)
      case None
      then have "initialize env packet st =
          ([Send packet Progress (ProgressInfo (workerId packet) ''initializing api'' 0),
            Call (End a), Call (TessBaseAPI_new (instances st)),
            Call (Init (instances st) (init_langs_of ls) (oem pl))] @ post, st', None)"
        using pl ls t by (simp add: initialize_def try_catch_def)
      then show ?thesis using post st' by simp
    next
      case (Some err)
      then have "initialize env packet st =
          ([Send packet Progress (ProgressInfo (workerId packet) ''initializing api'' 0),
            Call (End a), Call (TessBaseAPI_new (instances st)),
            Call (Init (instances st) (init_langs_of ls) (oem pl))]
            @ (post @ [Send packet Reject (ErrString err)]), st', None)"
        using pl ls t by (simp add: initialize_def try_catch_def send_def)
      moreover have "(\<forall>h. Call (TessBaseAPI_new h) \<notin> set (post @ [Send packet Reject (ErrString err)]))
          \<and> (\<forall>h. Call (End h) \<notin> set (post @ [Send packet Reject (ErrString err)]))"
        using post by simp
      ultimately show ?thesis using st' by (metis fst_conv snd_conv)
    qed
  qed
qed

theorem initialize_ends_previous_instance_first_witness:
  "api custom_state = Some 0
   \<and> params custom_state \<noteq> defaultParams example_env
   \<and> fst (initialize example_env (job ''initialize'' eng) custom_state)
       = [Send (job ''initialize'' eng) Progress (ProgressInfo ''worker-1'' ''initializing api'' 0),
          Call (End 0), Call (TessBaseAPI_new 1), Call (Init 1 (InitStr ''eng'') (Some 1)),
          Call (SetVariable 1 ''tessedit_pageseg_mode'' (PStr ''6'')),
          Call (SetVariable 1 ''tessedit_char_whitelist'' (PStr [])),
          Send (job ''initialize'' eng) Progress (ProgressInfo ''worker-1'' ''initialized api'' 1),
          Send (job ''initialize'' eng) Resolve Undefined]
   \<and> api (fst (snd (initialize example_env (job ''initialize'' eng) custom_state))) = Some 1
   \<and> params (fst (snd (initialize example_env (job ''initialize'' eng) custom_state)))
       = defaultParams example_env"
proof -
  have a: "api custom_state = Some 0" by (simp add: custom_state_def initialized_state_def)
  have pl: "payload (job ''initialize'' eng) = Some eng" by (simp add: job_def)
  have ls: "langs eng = Some (LangStr ''eng'')" by (simp add: eng_def)
  have ok: "TessModule custom_state \<and> throws example_env (End 0) = None
      \<and> throws example_env (TessBaseAPI_new (instances custom_state)) = None
      \<and> throws example_env (Init (instances custom_state) (init_langs_of (LangStr ''eng'')) (oem eng)) = None
      \<and> distinct (map fst (defaultParams example_env))"
    by (simp add: custom_state_def initialized_state_def example_env_def)
  have i: "instances custom_state = 1" by (simp add: custom_state_def initialized_state_def)
  have tr: "fst (initialize example_env (job ''initialize'' eng) custom_state)
       = [Send (job ''initialize'' eng) Progress (ProgressInfo ''worker-1'' ''initializing api'' 0),
          Call (End 0), Call (TessBaseAPI_new 1), Call (Init 1 (InitStr ''eng'') (Some 1)),
          Call (SetVariable 1 ''tessedit_pageseg_mode'' (PStr ''6'')),
          Call (SetVariable 1 ''tessedit_char_whitelist'' (PStr [])),
          Send (job ''initialize'' eng) Progress (ProgressInfo ''worker-1'' ''initialized api'' 1),
          Send (job ''initialize'' eng) Resolve Undefined]"
    by (simp add: initialize_def initialize_try_def statement_defs setParameters_def
          custom_state_def initialized_state_def example_env_def job_def eng_def)
  have ne: "params custom_state \<noteq> defaultParams example_env"
    by (simp add: custom_state_def initialized_state_def example_env_def)
  from initialize_ends_previous_instance_first[OF a pl ls, of example_env] ok i
  have "api (fst (snd (initialize example_env (job ''initialize'' eng) custom_state))) = Some 1
      \<and> params (fst (snd (initialize example_env (job ''initialize'' eng) custom_state)))
          = defaultParams example_env"
    by simp
  then show ?thesis using a ne tr by simp
qed

text \<open>
  Claim C9.  A call of \<^verbatim>\<open>detect\<close> in which \<^verbatim>\<open>DetectOS\<close> is reached and returns
  \<^verbatim>\<open>false\<close>: the handler calls \<^verbatim>\<open>End\<close> on the instance, sends no resolve, and the one
  response it sends is a rejection, sent last; when \<^verbatim>\<open>End\<close> and \<^verbatim>\<open>_free\<close> return normally
  the rejection carries the string \<^verbatim>\<open>Failed to detect OS\<close>.  No exception leaves the
  handler.
\<close>

theorem detect_failure_ends_and_rejects:
  assumes pl: "payload packet = Some pl" and h: "api st = Some h" and m: "TessModule st"
    and s: "throws env (SetImage (Some h) (p_image pl) None) = None"
    and r: "throws env OSResults_new = None"
    and d: "throws env (DetectOS h) = None"
    and f: "\<not> detectOS env (p_image pl)"
  shows "Call (End h) \<in> set (fst (detect env packet st))
       \<and> (\<forall>p x. Send p Resolve x \<notin> set (fst (detect env packet st)))
       \<and> (\<exists>pre x. fst (detect env packet st) = pre @ [Send packet Reject x]
             \<and> (\<forall>p s x. Send p s x \<notin> set pre))
       \<and> (throws env (End h) = None \<and> throws env (Free (setImage env (p_image pl))) = None \<longrightarrow>
            fst (detect env packet st) =
              [Call (SetImage (Some h) (p_image pl) None), Call OSResults_new, Call (DetectOS h),
               Call (End h), Call (Free (setImage env (p_image pl))),
               Send packet Reject (Str ''Failed to detect OS'')])
       \<and> snd (snd (detect env packet st)) = None"
proof (cases "throws env (End h)")
  case (Some err)
  then have "detect env packet st =
      ([Call (SetImage (Some h) (p_image pl) None), Call OSResults_new, Call (DetectOS h), Call (End h)]
         @ [Send packet Reject (ErrString err)], st, None)"
    using assms by (simp add: detect_def detect_try_def statement_defs)
  then show ?thesis using Some by simp
next
  case None
  show ?thesis
  proof (cases "throws env (Free (setImage env (p_image pl)))")
    case (Some err)
    then have "detect env packet st =
        ([Call (SetImage (Some h) (p_image pl) None), Call OSResults_new, Call (DetectOS h), Call (End h),
          Call (Free (setImage env (p_image pl)))] @ [Send packet Reject (ErrString err)], st, None)"
      using assms None by (simp add: detect_def detect_try_def statement_defs)
    then show ?thesis using Some by simp
  next
    case n: None
    then have "detect env packet st =
        ([Call (SetImage (Some h) (p_image pl) None), Call OSResults_new, Call (DetectOS h), Call (End h),
          Call (Free (setImage env (p_image pl)))] @ [Send packet Reject (Str ''Failed to detect OS'')], st, None)"
      using assms None by (simp add: detect_def detect_try_def statement_defs)
    then show ?thesis by simp
  qed
qed

theorem detect_failure_ends_and_rejects_witness:
  "\<not> detectOS example_env (p_image page)
   \<and> detect example_env (job ''detect'' page) initialized_state =
       ([Call (SetImage (Some 0) (Some [137, 80, 78, 71]) None), Call OSResults_new, Call (DetectOS 0),
         Call (End 0), Call (Free 0),
         Send (job ''detect'' page) Reject (Str ''Failed to detect OS'')], initialized_state, None)"
proof -
  have pl: "payload (job ''detect'' page) = Some page" by (simp add: job_def)
  have h: "api initialized_state = Some 0" and m: "TessModule initialized_state"
    by (simp_all add: initialized_state_def)
  have t: "throws example_env (SetImage (Some 0) (p_image page) None) = None"
      "throws example_env OSResults_new = None" "throws example_env (DetectOS 0) = None"
      "throws example_env (End 0) = None"
      "throws example_env (Free (setImage example_env (p_image page))) = None"
    by (simp_all add: example_env_def)
  have f: "\<not> detectOS example_env (p_image page)" by (simp add: example_env_def)
  have i: "p_image page = Some [137, 80, 78, 71]" "setImage example_env (Some [137, 80, 78, 71]) = 0"
    by (simp_all add: page_def example_env_def)
  from detect_failure_ends_and_rejects[OF pl h m t(1) t(2) t(3) f] t(4) t(5)
  have "fst (detect example_env (job ''detect'' page) initialized_state) =
       [Call (SetImage (Some 0) (Some [137, 80, 78, 71]) None), Call OSResults_new, Call (DetectOS 0),
         Call (End 0), Call (Free 0), Send (job ''detect'' page) Reject (Str ''Failed to detect OS'')]"
    and "snd (snd (detect example_env (job ''detect'' page) initialized_state)) = None"
    by (simp_all add: i)
  moreover have "fst (snd (detect example_env (job ''detect'' page) initialized_state)) = initialized_state"
    using pl h m t f by (simp add: detect_def detect_try_def statement_defs)
  ultimately show ?thesis using f by (metis prod.collapse)
qed

subsection \<open>Loading languages\<close>

lemma loadAndGunzipFile_events:
  "fst (loadAndGunzipFile env packet opts st spec) =
     (case obtain_data env packet opts spec of
        (e1, Inl err) \<Rightarrow> e1
      | (e1, Inr raw) \<Rightarrow>
          e1 @ (case gunzip_if_gzip env raw of
                  (e2, Inl err) \<Rightarrow> e2
                | (e2, Inr d) \<Rightarrow>
                    e2 @ (case write_traineddata env packet opts st (lang_of spec) d of
                            (e3, Some err) \<Rightarrow> e3
                          | (e3, None) \<Rightarrow> e3 @ fst (to_cache env opts (lang_of spec) d))))"
  by (simp add: loadAndGunzipFile_def split: prod.splits sum.splits option.splits)

lemma readCache_calls_append [simp]:
  "readCache_calls (xs @ ys) = readCache_calls xs @ readCache_calls ys"
  by (induction xs rule: readCache_calls.induct) simp_all

lemma writeCache_calls_append [simp]:
  "writeCache_calls (xs @ ys) = writeCache_calls xs @ writeCache_calls ys"
  by (induction xs rule: writeCache_calls.induct) simp_all

lemma readCache_calls_rest:
  "readCache_calls (fst (gunzip_if_gzip env raw)) = []"
  "readCache_calls (fst (write_traineddata env packet opts st lang d)) = []"
  "readCache_calls (fst (to_cache env opts lang d)) = []"
  by (simp_all add: gunzip_if_gzip_def write_traineddata_def to_cache_def
        split: option.splits)

lemma readCache_calls_loadAndGunzipFile:
  "readCache_calls (fst (loadAndGunzipFile env packet opts st spec))
     = readCache_calls (fst (obtain_data env packet opts spec))"
proof -
  have g: "readCache_calls e2 = []" if "gunzip_if_gzip env raw = (e2, r)" for raw e2 r
    using readCache_calls_rest(1)[of env raw] that by simp
  have w: "readCache_calls e3 = []" if "write_traineddata env packet opts st lang d = (e3, r)" for lang d e3 r
    using readCache_calls_rest(2)[of env packet opts st lang d] that by simp
  show ?thesis
    unfolding loadAndGunzipFile_events
    by (auto split: prod.splits sum.splits option.splits simp: g w readCache_calls_rest(3))
qed

lemma from_cache_skipped:
  "cacheMethod opts \<in> set [Some ''refresh'', Some ''none''] \<Longrightarrow>
   from_cache env packet opts lang = ([], None)"
  by (simp add: from_cache_def)

lemma split_on_nonempty: "split_on sep s \<noteq> []"
  by (induction s) (auto split: list.splits)

lemma split_on_no_sep: "w \<in> set (split_on sep s) \<Longrightarrow> sep \<notin> set w"
  by (induction s arbitrary: w) (auto split: if_splits list.splits)

lemma join_split_on: "join_on sep (split_on sep s) = s"
proof (induction s)
  case Nil
  then show ?case by simp
next
  case (Cons c cs)
  obtain w ws where ws: "split_on sep cs = w # ws"
    using split_on_nonempty[of sep cs] by (cases "split_on sep cs") auto
  show ?case
    using Cons ws by (cases ws) auto
qed

lemma mset_concat_update:
  "i < length xss \<Longrightarrow> xss ! i = x # xs \<Longrightarrow>
   mset (concat xss) = add_mset x (mset (concat (xss[i := xs])))"
proof (induction xss arbitrary: i)
  case Nil
  then show ?case by simp
next
  case (Cons ys xss)
  then show ?case by (cases i) auto
qed

lemma mset_interleave: "mset (interleave sched xss) = mset (concat xss)"
proof (induction sched arbitrary: xss)
  case Nil
  then show ?case by simp
next
  case (Cons i sched)
  show ?case
  proof (cases "i < length xss")
    case False
    then show ?thesis using Cons by simp
  next
    case True
    show ?thesis
    proof (cases "xss ! i")
      case Nil
      then show ?thesis using True Cons by simp
    next
      case (Cons x xs)
      then show ?thesis
        using True Cons.IH[of "xss[i := xs]"] mset_concat_update[OF True Cons] by simp
    qed
  qed
qed

lemma last_concat:
  "concat xss \<noteq> [] \<Longrightarrow> \<exists>xs \<in> set xss. xs \<noteq> [] \<and> last (concat xss) = last xs"
proof (induction xss)
  case Nil
  then show ?case by simp
next
  case (Cons ys xss)
  show ?case
  proof (cases "concat xss = []")
    case True
    then show ?thesis using Cons.prems by auto
  next
    case False
    then show ?thesis using Cons.IH by (auto simp: last_append)
  qed
qed

lemma last_interleave:
  assumes "\<forall>xs \<in> set xss. xs \<noteq> [] \<longrightarrow> P (last xs)" and "interleave sched xss \<noteq> []"
  shows "P (last (interleave sched xss))"
  using assms
proof (induction sched arbitrary: xss)
  case Nil
  then show ?case using last_concat[of xss] by auto
next
  case (Cons i sched)
  show ?case
  proof (cases "i < length xss")
    case False
    then show ?thesis using Cons by simp
  next
    case True
    show ?thesis
    proof (cases "xss ! i")
      case Nil
      then show ?thesis using True Cons by simp
    next
      case c: (Cons x xs)
      have mem: "x # xs \<in> set xss" using True c by (metis nth_mem)
      have ok: "\<forall>ys \<in> set (xss[i := xs]). ys \<noteq> [] \<longrightarrow> P (last ys)"
      proof (intro ballI impI)
        fix ys assume ys: "ys \<in> set (xss[i := xs])" "ys \<noteq> []"
        then consider "ys = xs" | "ys \<in> set xss"
          using set_update_subset_insert[of xss i xs] by auto
        then show "P (last ys)"
        proof cases
          case 1
          have "P (last (x # xs))" using mem Cons.prems(1) by blast
          then show ?thesis using 1 ys(2) by simp
        next
          case 2
          then show ?thesis using ys(2) Cons.prems(1) by blast
        qed
      qed
      have eq: "interleave (i # sched) xss = x # interleave sched (xss[i := xs])"
        using True c by simp
      show ?thesis
      proof (cases "interleave sched (xss[i := xs]) = []")
        case False
        then show ?thesis using eq Cons.IH[OF ok False] by simp
      next
        case e: True
        then have "mset (concat (xss[i := xs])) = {#}"
          using mset_interleave[of sched "xss[i := xs]"] by simp
        then have "concat (xss[i := xs]) = []" by simp
        moreover have "xs \<in> set (xss[i := xs])" using True by (simp add: set_update_memI)
        ultimately have "xs = []" by auto
        moreover have "P (last (x # xs))" using mem Cons.prems(1) by blast
        ultimately have "P x" by simp
        then show ?thesis using eq e by simp
      qed
    qed
  qed
qed

lemma promise_all_fulfilled:
  assumes "\<forall>s \<in> set ss. \<forall>err. s \<noteq> Settled (Some err)"
    and "length (filter is_settled ss) = n"
    and "ss = [] \<or> is_settled (last ss)"
  shows "promise_all k n ss = events_of ss @ k None"
  using assms
proof (induction ss arbitrary: n)
  case Nil
  then show ?case by simp
next
  case (Cons s ss)
  show ?case
  proof (cases s)
    case (Ev e)
    with Cons.prems have ne: "ss \<noteq> []" by auto
    with Cons.prems Ev have l: "is_settled (last ss)" by simp
    then have "last ss \<in> set (filter is_settled ss)" using ne by simp
    then have "length (filter is_settled ss) \<noteq> 0" by (metis length_0_conv empty_iff list.set(1))
    then obtain m where n: "n = Suc m" using Cons.prems(2) Ev by (cases n) auto
    show ?thesis using Cons.IH[of n] Cons.prems Ev n l by simp
  next
    case (Settled r)
    with Cons.prems have r: "r = None" by (cases r) auto
    obtain m where n: "n = Suc m" "length (filter is_settled ss) = m"
      using Cons.prems(2) Settled by auto
    have "ss = [] \<or> is_settled (last ss)" using Cons.prems(3) by (cases ss) auto
    then show ?thesis using Cons.IH[of m] Cons.prems(1) n Settled r by simp
  qed
qed

lemma set_promise_all:
  "set (promise_all k n ss) \<subseteq> set (events_of ss) \<union> (\<Union>r. set (k r))"
proof (induction "length ss" arbitrary: n ss)
  case 0
  then show ?case by (cases n) auto
next
  case (Suc l)
  then obtain s ss' where ss: "ss = s # ss'" "l = length ss'" by (cases ss) auto
  show ?case
  proof (cases n)
    case 0
    then show ?thesis by auto
  next
    case n: (Suc m)
    show ?thesis
    proof (cases s)
      case (Ev e)
      then show ?thesis using Suc(1)[OF ss(2), of n] ss n by auto
    next
      case (Settled r)
      then show ?thesis using Suc(1)[OF ss(2), of m] ss n by (cases r) auto
    qed
  qed
qed

lemma events_of_conv: "events_of ss = concat (map (\<lambda>s. case s of Ev e \<Rightarrow> [e] | Settled r \<Rightarrow> []) ss)"
  by (induction ss rule: events_of.induct) auto

lemma mset_concat_map_cong:
  assumes "mset xs = mset ys"
  shows "mset (concat (map f xs)) = mset (concat (map f ys))"
proof -
  have "mset (concat (map f zs)) = (\<Sum>z\<in>#mset zs. mset (f z))" for zs
    by (induction zs) auto
  then show ?thesis using assms by simp
qed

lemma mset_events_of_interleave:
  "mset (events_of (interleave sched xss)) = mset (concat (map events_of xss))"
proof -
  have "mset (events_of (interleave sched xss)) = mset (events_of (concat xss))"
    unfolding events_of_conv by (rule mset_concat_map_cong) (rule mset_interleave)
  also have "\<dots> = mset (concat (map events_of xss))"
    unfolding events_of_conv by (induction xss) auto
  finally show ?thesis .
qed

lemma calls_of_append [simp]: "calls_of (xs @ ys) = calls_of xs @ calls_of ys"
  by (induction xs rule: calls_of.induct) simp_all

lemma calls_of_events_of_conv:
  "calls_of (events_of ss) = concat (map (\<lambda>s. case s of Ev (Call c) \<Rightarrow> [c] | _ \<Rightarrow> []) ss)"
  by (induction ss rule: events_of.induct) (auto split: event.splits)

lemma calls_of_task_steps:
  "concat (map (\<lambda>s. case s of Ev (Call c) \<Rightarrow> [c] | _ \<Rightarrow> []) (task_steps t)) = calls_of (fst t)"
proof -
  have "concat (map (\<lambda>s. case s of Ev (Call c) \<Rightarrow> [c] | _ \<Rightarrow> []) (map Ev evs)) = calls_of evs" for evs
    by (induction evs rule: calls_of.induct) simp_all
  then show ?thesis by (simp add: task_steps_def)
qed

lemma calls_of_promise_all:
  assumes "\<And>r. calls_of (k r) = []"
  shows "calls_of (promise_all k n ss) = calls_of (events_of ss)"
proof (induction "length ss" arbitrary: n ss)
  case 0
  then show ?case by (cases n) (simp_all add: assms)
next
  case (Suc l)
  then obtain s ss' where ss: "ss = s # ss'" "l = length ss'" by (cases ss) auto
  show ?case
  proof (cases n)
    case 0
    then show ?thesis by (simp add: assms)
  next
    case n: (Suc m)
    show ?thesis
    proof (cases s)
      case (Ev e)
      then show ?thesis using Suc(1)[OF ss(2), of n] ss n by (cases e) simp_all
    next
      case (Settled r)
      then show ?thesis using Suc(1)[OF ss(2), of m] ss n by (cases r) (simp_all add: assms)
    qed
  qed
qed

lemma calls_of_loadLanguage_end: "calls_of (loadLanguage_end env packet ls r) = []"
  by (cases r) (simp_all add: loadLanguage_catch_def)

lemma mset_calls_of_interleave:
  "mset (calls_of (events_of (interleave sched (map task_steps ts))))
     = mset (concat (map (\<lambda>t. calls_of (fst t)) ts))"
proof -
  let ?F = "\<lambda>s. case s of Ev (Call c) \<Rightarrow> [c] | _ \<Rightarrow> []"
  have "mset (calls_of (events_of (interleave sched (map task_steps ts))))
      = mset (concat (map ?F (concat (map task_steps ts))))"
    unfolding calls_of_events_of_conv by (rule mset_concat_map_cong) (rule mset_interleave)
  also have "concat (map ?F (concat (map task_steps ts))) = concat (map (\<lambda>t. calls_of (fst t)) ts)"
    by (induction ts) (simp_all add: calls_of_task_steps)
  finally show ?thesis .
qed

lemma loadLanguage_trace:
  assumes "payload packet = Some pl" and "options pl = Some opts" and "langs pl = Some ls"
  shows "loadLanguage env packet st =
     (Send packet Progress (ProgressInfo (workerId packet) ''loading language traineddata'' 0) #
      promise_all (loadLanguage_end env packet ls) (length (specs_of ls))
        (interleave (schedule env)
           (map task_steps (map (loadAndGunzipFile env packet opts st) (specs_of ls)))),
      st, None)"
  using assms by (simp add: loadLanguage_def comp_def)

lemma mset_calls_of_loadLanguage:
  assumes "payload packet = Some pl" and "options pl = Some opts" and "langs pl = Some ls"
  shows "mset (calls_of (fst (loadLanguage env packet st)))
     = mset (concat (map (\<lambda>spec. calls_of (fst (loadAndGunzipFile env packet opts st spec)))
                        (specs_of ls)))"
proof -
  have "calls_of (fst (loadLanguage env packet st))
      = calls_of (events_of (interleave (schedule env)
           (map task_steps (map (loadAndGunzipFile env packet opts st) (specs_of ls)))))"
    by (simp add: loadLanguage_trace[OF assms] calls_of_promise_all calls_of_loadLanguage_end)
  then show ?thesis
    using mset_calls_of_interleave[of "schedule env"
        "map (loadAndGunzipFile env packet opts st) (specs_of ls)"]
    by (simp add: comp_def)
qed

lemma set_calls_of: "c \<in> set (calls_of evs) \<longleftrightarrow> Call c \<in> set evs"
  by (induction evs rule: calls_of.induct) auto

lemma readCache_calls_mem: "p \<in> set (readCache_calls evs) \<longleftrightarrow> Call (ReadCache p) \<in> set evs"
  by (induction evs rule: readCache_calls.induct) auto

lemma writeCache_calls_mem: "(p, d) \<in> set (writeCache_calls evs) \<longleftrightarrow> Call (WriteCache p d) \<in> set evs"
  by (induction evs rule: writeCache_calls.induct) auto

lemma call_of_loadLanguage:
  assumes "payload packet = Some pl" and "options pl = Some opts" and "langs pl = Some ls"
  shows "Call c \<in> set (fst (loadLanguage env packet st)) \<longleftrightarrow>
     (\<exists>spec \<in> set (specs_of ls). Call c \<in> set (fst (loadAndGunzipFile env packet opts st spec)))"
proof -
  have "Call c \<in> set (fst (loadLanguage env packet st))
      \<longleftrightarrow> c \<in> set_mset (mset (calls_of (fst (loadLanguage env packet st))))"
    by (simp add: set_calls_of)
  also have "\<dots> \<longleftrightarrow> c \<in> set (concat (map (\<lambda>spec. calls_of (fst (loadAndGunzipFile env packet opts st spec)))
                        (specs_of ls)))"
    unfolding mset_calls_of_loadLanguage[OF assms] by simp
  also have "\<dots> \<longleftrightarrow> (\<exists>spec \<in> set (specs_of ls). Call c \<in> set (fst (loadAndGunzipFile env packet opts st spec)))"
    by (auto simp: set_calls_of)
  finally show ?thesis .
qed

lemma readCache_calls_obtain_data_skipped:
  assumes "cacheMethod opts \<in> set [Some ''refresh'', Some ''none'']"
  shows "readCache_calls (fst (obtain_data env packet opts spec)) =
     (case spec of
        Inline c d \<Rightarrow> []
      | Code lang \<Rightarrow>
          (case langPath opts of
             None \<Rightarrow> []
           | Some lp \<Rightarrow> if is_url_path env lp then [] else [lang_file opts lp lang]))"
  using from_cache_skipped[OF assms]
  by (simp add: obtain_data_def from_path_def split: langspec.splits option.splits)


lemma obtain_data_events:
  "e \<in> set (fst (obtain_data env packet opts spec)) \<Longrightarrow>
   (\<exists>p. e = Call (ReadCache p)) \<or> (\<exists>b u. e = Call (Fetch b u)) \<or> (\<exists>x. e = Send packet Progress x)"
  by (auto simp: obtain_data_def from_cache_def from_path_def
        split: option.splits langspec.splits sum.splits prod.splits if_splits)

lemma rest_events:
  "e \<in> set (fst (gunzip_if_gzip env raw)) \<Longrightarrow> e = Call (Gunzip raw)"
  "e \<in> set (fst (write_traineddata env packet opts st lang d)) \<Longrightarrow>
     (\<exists>p. e = Call (FS_mkdir p)) \<or> (\<exists>x. e = Send packet Reject x) \<or> e = Call (FS_writeFile (data_file opts lang) d)"
  "e \<in> set (fst (to_cache env opts lang d)) \<Longrightarrow> e = Call (WriteCache (cache_file opts lang) d)"
  by (auto simp: gunzip_if_gzip_def write_traineddata_def to_cache_def split: option.splits if_splits)

text \<open>
  Claim C8.  Let a run of \<^verbatim>\<open>loadAndGunzipFile\<close> have obtained the bytes \<open>raw\<close>.  When
  \<^verbatim>\<open>fileType\<close> finds them to be gzip, \<^verbatim>\<open>gunzip\<close> is called on them next, before anything
  is written, whatever is written to the filesystem of the module is what \<^verbatim>\<open>gunzip\<close>
  returned, and it is written when the module is loaded and \<^verbatim>\<open>gunzip\<close> succeeds.
  Otherwise \<^verbatim>\<open>gunzip\<close> is not called, whatever is written is \<open>raw\<close>, and it is written when
  the module is loaded.  What decides is \<open>fileType env raw\<close>, a function of the bytes
  alone: neither the spec nor the options nor the way the bytes were obtained enter.
\<close>

theorem gunzip_decided_by_content:
  assumes o: "obtain_data env packet opts spec = (e1, Inr raw)"
  shows "(\<forall>p d. Call (FS_writeFile p d) \<notin> set e1) \<and> (\<forall>x. Call (Gunzip x) \<notin> set e1)
     \<and> (fileType env raw = Some ''application/gzip'' \<longrightarrow>
          (\<exists>rest. fst (loadAndGunzipFile env packet opts st spec) = e1 @ Call (Gunzip raw) # rest)
        \<and> (\<forall>p d. Call (FS_writeFile p d) \<in> set (fst (loadAndGunzipFile env packet opts st spec)) \<longrightarrow>
              p = data_file opts (lang_of spec) \<and> gunzip env raw = Inr d)
        \<and> (\<forall>d. TessModule st \<and> gunzip env raw = Inr d \<longrightarrow>
              Call (FS_writeFile (data_file opts (lang_of spec)) d)
                \<in> set (fst (loadAndGunzipFile env packet opts st spec))))
     \<and> (fileType env raw \<noteq> Some ''application/gzip'' \<longrightarrow>
          (\<forall>x. Call (Gunzip x) \<notin> set (fst (loadAndGunzipFile env packet opts st spec)))
        \<and> (\<forall>p d. Call (FS_writeFile p d) \<in> set (fst (loadAndGunzipFile env packet opts st spec)) \<longrightarrow>
              p = data_file opts (lang_of spec) \<and> d = raw)
        \<and> (TessModule st \<longrightarrow>
              Call (FS_writeFile (data_file opts (lang_of spec)) raw)
                \<in> set (fst (loadAndGunzipFile env packet opts st spec))))"
proof -
  let ?run = "fst (loadAndGunzipFile env packet opts st spec)"
  let ?file = "data_file opts (lang_of spec)"
  have e1: "(\<exists>p. e = Call (ReadCache p)) \<or> (\<exists>b u. e = Call (Fetch b u))
              \<or> (\<exists>x. e = Send packet Progress x)" if "e \<in> set e1" for e
    using obtain_data_events[of e env packet opts spec] o that by simp
  have a1: "\<forall>p d. Call (FS_writeFile p d) \<notin> set e1"
    using e1 by auto
  have a2: "\<forall>x. Call (Gunzip x) \<notin> set e1"
    using e1 by auto
  have tail: "(\<forall>x. Call (Gunzip x) \<notin> set t)
        \<and> (\<forall>p d'. Call (FS_writeFile p d') \<in> set t \<longrightarrow> p = ?file \<and> d' = d)
        \<and> (TessModule st \<longrightarrow> Call (FS_writeFile ?file d) \<in> set t)"
    if t: "t = (case write_traineddata env packet opts st (lang_of spec) d of
                  (e3, Some err) \<Rightarrow> e3
                | (e3, None) \<Rightarrow> e3 @ fst (to_cache env opts (lang_of spec) d))" for t d
  proof -
    obtain e3 r where wr: "write_traineddata env packet opts st (lang_of spec) d = (e3, r)"
      by (cases "write_traineddata env packet opts st (lang_of spec) d")
    have e3: "(\<exists>p. e = Call (FS_mkdir p)) \<or> (\<exists>x. e = Send packet Reject x)
               \<or> e = Call (FS_writeFile ?file d)" if "e \<in> set e3" for e
      using rest_events(2)[of e env packet opts st "lang_of spec" d] wr that by simp
    have c: "e = Call (WriteCache (cache_file opts (lang_of spec)) d)"
      if "e \<in> set (fst (to_cache env opts (lang_of spec) d))" for e
      using rest_events(3)[OF that] .
    have m3: "TessModule st \<Longrightarrow> Call (FS_writeFile ?file d) \<in> set e3"
      using wr by (auto simp: write_traineddata_def)
    have sub: "e \<in> set e3 \<or> e \<in> set (fst (to_cache env opts (lang_of spec) d))" if "e \<in> set t" for e
      using t wr that by (cases r) auto
    have sup: "e \<in> set t" if "e \<in> set e3" for e
      using t wr that by (cases r) auto
    have g: "Call (Gunzip x) \<notin> set t" for x
      using sub[of "Call (Gunzip x)"] e3[of "Call (Gunzip x)"] c[of "Call (Gunzip x)"] by auto
    have f: "p = ?file \<and> d' = d" if "Call (FS_writeFile p d') \<in> set t" for p d'
      using sub[OF that] e3[of "Call (FS_writeFile p d')"] c[of "Call (FS_writeFile p d')"] by auto
    show ?thesis using g f m3 sup by blast
  qed
  show ?thesis
  proof (cases "fileType env raw = Some ''application/gzip''")
    case True
    have g1: "\<exists>rest. ?run = e1 @ Call (Gunzip raw) # rest"
     and g2: "\<forall>p d. Call (FS_writeFile p d) \<in> set ?run \<longrightarrow> p = ?file \<and> gunzip env raw = Inr d"
     and g3: "\<forall>d. TessModule st \<and> gunzip env raw = Inr d \<longrightarrow> Call (FS_writeFile ?file d) \<in> set ?run"
    proof -
      show "\<exists>rest. ?run = e1 @ Call (Gunzip raw) # rest"
        using o True
        by (cases "gunzip env raw") (simp_all add: loadAndGunzipFile_events gunzip_if_gzip_def)
      show "\<forall>p d. Call (FS_writeFile p d) \<in> set ?run \<longrightarrow> p = ?file \<and> gunzip env raw = Inr d"
      proof (cases "gunzip env raw")
        case (Inl err)
        then have "?run = e1 @ [Call (Gunzip raw)]"
          using o True by (simp add: loadAndGunzipFile_events gunzip_if_gzip_def)
        then show ?thesis using a1 by simp
      next
        case (Inr d)
        define t where "t = (case write_traineddata env packet opts st (lang_of spec) d of
                    (e3, Some err) \<Rightarrow> e3
                  | (e3, None) \<Rightarrow> e3 @ fst (to_cache env opts (lang_of spec) d))"
        have f: "?run = e1 @ Call (Gunzip raw) # t"
          using o True Inr by (simp add: loadAndGunzipFile_events gunzip_if_gzip_def t_def)
        show ?thesis unfolding f using tail[OF t_def] a1 Inr by simp
      qed
      show "\<forall>d. TessModule st \<and> gunzip env raw = Inr d \<longrightarrow> Call (FS_writeFile ?file d) \<in> set ?run"
      proof (intro allI impI)
        fix d assume h: "TessModule st \<and> gunzip env raw = Inr d"
        define t where "t = (case write_traineddata env packet opts st (lang_of spec) d of
                    (e3, Some err) \<Rightarrow> e3
                  | (e3, None) \<Rightarrow> e3 @ fst (to_cache env opts (lang_of spec) d))"
        have f: "?run = e1 @ Call (Gunzip raw) # t"
          using o True h by (simp add: loadAndGunzipFile_events gunzip_if_gzip_def t_def)
        show "Call (FS_writeFile ?file d) \<in> set ?run" unfolding f using tail[OF t_def] h by simp
      qed
    qed
    show ?thesis using True a1 a2 g1 g2 g3 by blast
  next
    case False
    define t where "t = (case write_traineddata env packet opts st (lang_of spec) raw of
                (e3, Some err) \<Rightarrow> e3
              | (e3, None) \<Rightarrow> e3 @ fst (to_cache env opts (lang_of spec) raw))"
    have f: "?run = e1 @ t"
      using o False by (simp add: loadAndGunzipFile_events gunzip_if_gzip_def t_def)
    have n1: "\<forall>x. Call (Gunzip x) \<notin> set ?run"
      unfolding f using tail[OF t_def] a2 by simp
    have n2: "\<forall>p d. Call (FS_writeFile p d) \<in> set ?run \<longrightarrow> p = ?file \<and> d = raw"
      unfolding f using tail[OF t_def] a1 by simp
    have n3: "TessModule st \<longrightarrow> Call (FS_writeFile ?file raw) \<in> set ?run"
      unfolding f using tail[OF t_def] by simp
    show ?thesis using False a1 a2 n1 n2 n3 by blast
  qed
qed

theorem gunzip_decided_by_content_witness:
  "obtain_data example_env (job ''loadLanguage'' eng_list) tessdata_local (Code ''eng'')
     = ([Call (ReadCache ''/tessdata/eng.traineddata.gz'')], Inr [31, 139, 8, 1])
   \<and> fileType example_env [31, 139, 8, 1] = Some ''application/gzip''
   \<and> gunzip example_env [31, 139, 8, 1] = Inr [1]
   \<and> Call (FS_writeFile ''./eng.traineddata'' [1])
        \<in> set (fst (loadAndGunzipFile example_env (job ''loadLanguage'' eng_list) tessdata_local
              initialized_state (Code ''eng'')))
   \<and> obtain_data example_env (job ''loadLanguage'' eng_list) tessdata_local (Inline ''eng'' [1, 2, 3])
     = ([], Inr [1, 2, 3])
   \<and> fileType example_env [1, 2, 3] \<noteq> Some ''application/gzip''
   \<and> Call (FS_writeFile ''./eng.traineddata'' [1, 2, 3])
        \<in> set (fst (loadAndGunzipFile example_env (job ''loadLanguage'' eng_list) tessdata_local
              initialized_state (Inline ''eng'' [1, 2, 3])))"
proof -
  have o1: "obtain_data example_env (job ''loadLanguage'' eng_list) tessdata_local (Code ''eng'')
     = ([Call (ReadCache ''/tessdata/eng.traineddata.gz'')], Inr [31, 139, 8, 1])"
    by (simp add: obtain_data_def from_cache_def from_path_def is_url_path_def lang_file_def
          tessdata_local_def no_options_def example_env_def)
  have o2: "obtain_data example_env (job ''loadLanguage'' eng_list) tessdata_local (Inline ''eng'' [1, 2, 3])
     = ([], Inr [1, 2, 3])"
    by (simp add: obtain_data_def from_cache_def from_path_def tessdata_local_def no_options_def)
  have t: "fileType example_env [31, 139, 8, 1] = Some ''application/gzip''"
      "gunzip example_env [31, 139, 8, 1] = Inr [1]"
      "fileType example_env [1, 2, 3] \<noteq> Some ''application/gzip''"
      "TessModule initialized_state"
      "data_file tessdata_local ''eng'' = ''./eng.traineddata''"
    by (simp_all add: example_env_def initialized_state_def data_file_def or_dot_def
          tessdata_local_def no_options_def)
  from gunzip_decided_by_content[OF o1, of initialized_state] t
  have w1: "Call (FS_writeFile ''./eng.traineddata'' [1])
        \<in> set (fst (loadAndGunzipFile example_env (job ''loadLanguage'' eng_list) tessdata_local
              initialized_state (Code ''eng'')))"
    by simp
  from gunzip_decided_by_content[OF o2, of initialized_state] t
  have w2: "Call (FS_writeFile ''./eng.traineddata'' [1, 2, 3])
        \<in> set (fst (loadAndGunzipFile example_env (job ''loadLanguage'' eng_list) tessdata_local
              initialized_state (Inline ''eng'' [1, 2, 3])))"
    by simp
  show ?thesis using o1 o2 t w1 w2 by simp
qed




lemma loadAndGunzipFile_event_cases:
  assumes "e \<in> set (fst (loadAndGunzipFile env packet opts st spec))"
  shows "e \<in> set (fst (obtain_data env packet opts spec))
       \<or> (\<exists>raw. e \<in> set (fst (gunzip_if_gzip env raw)))
       \<or> (\<exists>d. e \<in> set (fst (write_traineddata env packet opts st (lang_of spec) d)))
       \<or> (\<exists>d. e \<in> set (fst (to_cache env opts (lang_of spec) d)))"
proof -
  obtain e1 r1 where o: "obtain_data env packet opts spec = (e1, r1)"
    by (cases "obtain_data env packet opts spec")
  show ?thesis
  proof (cases r1)
    case (Inl err)
    then show ?thesis using assms o by (simp add: loadAndGunzipFile_events)
  next
    case (Inr raw)
    obtain e2 r2 where g: "gunzip_if_gzip env raw = (e2, r2)"
      by (cases "gunzip_if_gzip env raw")
    have g': "x \<in> set e2 \<Longrightarrow> \<exists>raw. x \<in> set (fst (gunzip_if_gzip env raw))" for x
      using g by (metis fst_conv)
    show ?thesis
    proof (cases r2)
      case (Inl err)
      then show ?thesis using assms o Inr g g' by (auto simp: loadAndGunzipFile_events)
    next
      case d: (Inr d)
      obtain e3 r3 where w: "write_traineddata env packet opts st (lang_of spec) d = (e3, r3)"
        by (cases "write_traineddata env packet opts st (lang_of spec) d")
      have w': "x \<in> set e3 \<Longrightarrow> \<exists>d. x \<in> set (fst (write_traineddata env packet opts st (lang_of spec) d))" for x
        using w by (metis fst_conv)
      have "e \<in> set e1 \<or> e \<in> set e2 \<or> e \<in> set e3 \<or> e \<in> set (fst (to_cache env opts (lang_of spec) d))"
        using assms o Inr g d w by (cases r3) (auto simp: loadAndGunzipFile_events)
      then show ?thesis using o g' w' by auto
    qed
  qed
qed

lemma loadAndGunzipFile_event_shapes:
  assumes "e \<in> set (fst (loadAndGunzipFile env packet opts st spec))"
  shows "e \<in> set (fst (obtain_data env packet opts spec))
       \<or> (\<exists>raw. e = Call (Gunzip raw)) \<or> (\<exists>p. e = Call (FS_mkdir p))
       \<or> (\<exists>x. e = Send packet Reject x) \<or> (\<exists>p d. e = Call (FS_writeFile p d))
       \<or> (\<exists>p d. e = Call (WriteCache p d))"
  using loadAndGunzipFile_event_cases[OF assms] rest_events[of e]
  by blast





lemma writeCache_calls_never:
  assumes "cacheMethod opts \<notin> set [Some ''write'', Some ''refresh'', None]"
  shows "writeCache_calls (fst (loadAndGunzipFile env packet opts st spec)) = []"
proof -
  have "(p, d) \<notin> set (writeCache_calls (fst (loadAndGunzipFile env packet opts st spec)))" for p d
  proof
    assume "(p, d) \<in> set (writeCache_calls (fst (loadAndGunzipFile env packet opts st spec)))"
    then have a: "Call (WriteCache p d) \<in> set (fst (loadAndGunzipFile env packet opts st spec))"
      by (simp add: writeCache_calls_mem)
    have c: "fst (to_cache env opts lang x) = []" for lang x
      using assms by (simp add: to_cache_def)
    from loadAndGunzipFile_event_cases[OF a] c
    show False
      using obtain_data_events[of "Call (WriteCache p d)" env packet opts spec]
        rest_events(1,2)[of "Call (WriteCache p d)"]
      by auto
  qed
  then show ?thesis by (cases "writeCache_calls (fst (loadAndGunzipFile env packet opts st spec))") auto
qed



lemma fetch_calls_append [simp]:
  "fetch_calls (xs @ ys) = fetch_calls xs @ fetch_calls ys"
  by (induction xs rule: fetch_calls.induct) simp_all

lemma fetch_calls_mem: "(b, u) \<in> set (fetch_calls evs) \<longleftrightarrow> Call (Fetch b u) \<in> set evs"
  by (induction evs rule: fetch_calls.induct) auto

lemma fetch_calls_rest:
  "fetch_calls (fst (gunzip_if_gzip env raw)) = []"
  "fetch_calls (fst (write_traineddata env packet opts st lang d)) = []"
  "fetch_calls (fst (to_cache env opts lang d)) = []"
  by (simp_all add: gunzip_if_gzip_def write_traineddata_def to_cache_def
        split: option.splits)

lemma fetch_calls_loadAndGunzipFile:
  "fetch_calls (fst (loadAndGunzipFile env packet opts st spec))
     = fetch_calls (fst (obtain_data env packet opts spec))"
proof -
  have g: "fetch_calls e2 = []" if "gunzip_if_gzip env raw = (e2, r)" for raw e2 r
    using fetch_calls_rest(1)[of env raw] that by simp
  have w: "fetch_calls e3 = []" if "write_traineddata env packet opts st lang d = (e3, r)" for lang d e3 r
    using fetch_calls_rest(2)[of env packet opts st lang d] that by simp
  show ?thesis
    unfolding loadAndGunzipFile_events
    by (auto split: prod.splits sum.splits option.splits simp: g w fetch_calls_rest(3))
qed

lemma writeCache_calls_none:
  assumes "cacheMethod opts = Some ''none''"
  shows "writeCache_calls (fst (loadAndGunzipFile env packet opts st spec)) = []"
  by (rule writeCache_calls_never) (simp add: assms)

text \<open>
  Claim C4, as amended.  With \<^verbatim>\<open>cacheMethod\<close> \<^verbatim>\<open>none\<close> the lookup in the cache calls
  nothing: the reader is replaced by one that returns \<^verbatim>\<open>undefined\<close>, and the run goes to
  the \<^verbatim>\<open>catch\<close> block, that is to the resolution by path or network.  What that gives is
  the supplied bytes for an inline spec, with no call; for a code, a \<^verbatim>\<open>TypeError\<close> when
  there is no \<^verbatim>\<open>langPath\<close>, the answer of \<^verbatim>\<open>fetch\<close> on the file under \<^verbatim>\<open>langPath\<close> when
  \<^verbatim>\<open>langPath\<close> is a URL, after that one call, and the answer of the adapter's \<^verbatim>\<open>readCache\<close>
  on the file under \<^verbatim>\<open>langPath\<close> when it is not, after that one call.  So a run of
  \<^verbatim>\<open>loadAndGunzipFile\<close> calls the reader once, on the file under a \<^verbatim>\<open>langPath\<close> that is
  not a URL, and otherwise not; it fetches once, the file under a \<^verbatim>\<open>langPath\<close> that is a
  URL, and otherwise not; and it does not write the cache.  In the whole of
  \<^verbatim>\<open>loadLanguage\<close> the reader is called on exactly the files of the codes under a
  \<^verbatim>\<open>langPath\<close> that is not a URL, exactly the files of the codes under a \<^verbatim>\<open>langPath\<close> that
  is a URL are fetched, and the cache is not written.
\<close>

theorem cache_none_reads_only_under_langPath:
  assumes n: "cacheMethod opts = Some ''none''"
  shows "from_cache env packet opts (lang_of spec) = ([], None)
       \<and> obtain_data env packet opts spec =
           (case spec of
              Inline c d \<Rightarrow> ([], Inr d)
            | Code lang \<Rightarrow>
                (case langPath opts of
                   None \<Rightarrow> ([], Inl (TypeError ''langPath.startsWith''))
                 | Some lp \<Rightarrow>
                     if is_url_path env lp then
                       ([Call (Fetch (isWebWorker env) (lang_file opts lp lang))],
                        fetch env (lang_file opts lp lang))
                     else
                       ([Call (ReadCache (lang_file opts lp lang))],
                        (case readCache env (lang_file opts lp lang) of
                           Inl err \<Rightarrow> Inl err
                         | Inr None \<Rightarrow> Inr []
                         | Inr (Some d) \<Rightarrow> Inr d))))
       \<and> readCache_calls (fst (loadAndGunzipFile env packet opts st spec)) =
           (case spec of
              Inline c d \<Rightarrow> []
            | Code lang \<Rightarrow>
                (case langPath opts of
                   None \<Rightarrow> []
                 | Some lp \<Rightarrow> if is_url_path env lp then [] else [lang_file opts lp lang]))
       \<and> fetch_calls (fst (loadAndGunzipFile env packet opts st spec)) =
           (case spec of
              Inline c d \<Rightarrow> []
            | Code lang \<Rightarrow>
                (case langPath opts of
                   None \<Rightarrow> []
                 | Some lp \<Rightarrow>
                     if is_url_path env lp then [(isWebWorker env, lang_file opts lp lang)] else []))
       \<and> writeCache_calls (fst (loadAndGunzipFile env packet opts st spec)) = []
       \<and> (payload packet = Some pl \<and> options pl = Some opts \<and> langs pl = Some ls \<longrightarrow>
            (\<forall>p. Call (ReadCache p) \<in> set (fst (loadLanguage env packet st)) \<longleftrightarrow>
               (\<exists>lang lp. Code lang \<in> set (specs_of ls) \<and> langPath opts = Some lp
                  \<and> \<not> is_url_path env lp \<and> p = lang_file opts lp lang))
          \<and> (\<forall>b u. Call (Fetch b u) \<in> set (fst (loadLanguage env packet st)) \<longleftrightarrow>
               (\<exists>lang lp. Code lang \<in> set (specs_of ls) \<and> langPath opts = Some lp
                  \<and> is_url_path env lp \<and> b = isWebWorker env \<and> u = lang_file opts lp lang))
          \<and> (\<forall>p d. Call (WriteCache p d) \<notin> set (fst (loadLanguage env packet st))))"
proof -
  have m: "cacheMethod opts \<in> set [Some ''refresh'', Some ''none'']" using n by simp
  have a: "from_cache env packet opts (lang_of spec) = ([], None)"
    using n by (simp add: from_cache_def)
  have o: "obtain_data env packet opts spec =
           (case spec of
              Inline c d \<Rightarrow> ([], Inr d)
            | Code lang \<Rightarrow>
                (case langPath opts of
                   None \<Rightarrow> ([], Inl (TypeError ''langPath.startsWith''))
                 | Some lp \<Rightarrow>
                     if is_url_path env lp then
                       ([Call (Fetch (isWebWorker env) (lang_file opts lp lang))],
                        fetch env (lang_file opts lp lang))
                     else
                       ([Call (ReadCache (lang_file opts lp lang))],
                        (case readCache env (lang_file opts lp lang) of
                           Inl err \<Rightarrow> Inl err
                         | Inr None \<Rightarrow> Inr []
                         | Inr (Some d) \<Rightarrow> Inr d))))" for spec
    using n
    by (simp add: obtain_data_def from_cache_def from_path_def split: langspec.splits option.splits)
  have b: "readCache_calls (fst (loadAndGunzipFile env packet opts st spec)) =
           (case spec of
              Inline c d \<Rightarrow> []
            | Code lang \<Rightarrow>
                (case langPath opts of
                   None \<Rightarrow> []
                 | Some lp \<Rightarrow> if is_url_path env lp then [] else [lang_file opts lp lang]))" for spec
    by (simp add: readCache_calls_loadAndGunzipFile o split: langspec.splits option.splits)
  have f: "fetch_calls (fst (loadAndGunzipFile env packet opts st spec)) =
           (case spec of
              Inline c d \<Rightarrow> []
            | Code lang \<Rightarrow>
                (case langPath opts of
                   None \<Rightarrow> []
                 | Some lp \<Rightarrow>
                     if is_url_path env lp then [(isWebWorker env, lang_file opts lp lang)] else []))" for spec
    by (simp add: fetch_calls_loadAndGunzipFile o split: langspec.splits option.splits)
  have c: "writeCache_calls (fst (loadAndGunzipFile env packet opts st spec)) = []" for spec
    by (rule writeCache_calls_none[OF n])
  have whole: "(\<forall>p. Call (ReadCache p) \<in> set (fst (loadLanguage env packet st)) \<longleftrightarrow>
               (\<exists>lang lp. Code lang \<in> set (specs_of ls) \<and> langPath opts = Some lp
                  \<and> \<not> is_url_path env lp \<and> p = lang_file opts lp lang))
          \<and> (\<forall>b u. Call (Fetch b u) \<in> set (fst (loadLanguage env packet st)) \<longleftrightarrow>
               (\<exists>lang lp. Code lang \<in> set (specs_of ls) \<and> langPath opts = Some lp
                  \<and> is_url_path env lp \<and> b = isWebWorker env \<and> u = lang_file opts lp lang))
          \<and> (\<forall>p d. Call (WriteCache p d) \<notin> set (fst (loadLanguage env packet st)))"
    if pl: "payload packet = Some pl \<and> options pl = Some opts \<and> langs pl = Some ls"
  proof (intro conjI allI)
    from pl have q: "payload packet = Some pl" "options pl = Some opts" "langs pl = Some ls"
      by simp_all
    note mem = call_of_loadLanguage[OF q, of _ env st]
    fix p
    have r: "Call (ReadCache p) \<in> set (fst (loadAndGunzipFile env packet opts st spec)) \<longleftrightarrow>
        (\<exists>lang lp. spec = Code lang \<and> langPath opts = Some lp
           \<and> \<not> is_url_path env lp \<and> p = lang_file opts lp lang)" for spec
      unfolding readCache_calls_mem[symmetric] b
      by (cases spec; cases "langPath opts") auto
    show "Call (ReadCache p) \<in> set (fst (loadLanguage env packet st)) \<longleftrightarrow>
               (\<exists>lang lp. Code lang \<in> set (specs_of ls) \<and> langPath opts = Some lp
                  \<and> \<not> is_url_path env lp \<and> p = lang_file opts lp lang)"
      unfolding mem r by blast
  next
    from pl have q: "payload packet = Some pl" "options pl = Some opts" "langs pl = Some ls"
      by simp_all
    note mem = call_of_loadLanguage[OF q, of _ env st]
    fix b' u
    have r: "Call (Fetch b' u) \<in> set (fst (loadAndGunzipFile env packet opts st spec)) \<longleftrightarrow>
        (\<exists>lang lp. spec = Code lang \<and> langPath opts = Some lp
           \<and> is_url_path env lp \<and> b' = isWebWorker env \<and> u = lang_file opts lp lang)" for spec
      unfolding fetch_calls_mem[symmetric] f
      by (cases spec; cases "langPath opts") auto
    show "Call (Fetch b' u) \<in> set (fst (loadLanguage env packet st)) \<longleftrightarrow>
               (\<exists>lang lp. Code lang \<in> set (specs_of ls) \<and> langPath opts = Some lp
                  \<and> is_url_path env lp \<and> b' = isWebWorker env \<and> u = lang_file opts lp lang)"
      unfolding mem r by blast
  next
    from pl have q: "payload packet = Some pl" "options pl = Some opts" "langs pl = Some ls"
      by simp_all
    note mem = call_of_loadLanguage[OF q, of _ env st]
    fix p d
    have "Call (WriteCache p d) \<notin> set (fst (loadAndGunzipFile env packet opts st spec))" for spec
      unfolding writeCache_calls_mem[symmetric] c by simp
    then show "Call (WriteCache p d) \<notin> set (fst (loadLanguage env packet st))"
      unfolding mem by blast
  qed
  show ?thesis using a o[of spec] b[of spec] f[of spec] c[of spec] whole by blast
qed

theorem cache_none_reads_only_under_langPath_witness:
  "cacheMethod tessdata_local = Some ''none''
   \<and> cacheMethod tessdata_url = Some ''none''
   \<and> obtain_data example_env (job ''loadLanguage'' eng_list) tessdata_local (Code ''eng'')
       = ([Call (ReadCache ''/tessdata/eng.traineddata.gz'')], Inr [31, 139, 8, 1])
   \<and> readCache_calls (fst (loadAndGunzipFile example_env (job ''loadLanguage'' eng_list) tessdata_local
         initialized_state (Code ''eng''))) = [''/tessdata/eng.traineddata.gz'']
   \<and> fetch_calls (fst (loadAndGunzipFile example_env (job ''loadLanguage'' eng_list) tessdata_local
         initialized_state (Code ''eng''))) = []
   \<and> writeCache_calls (fst (loadAndGunzipFile example_env (job ''loadLanguage'' eng_list) tessdata_local
         initialized_state (Code ''eng''))) = []
   \<and> obtain_data example_env (job ''loadLanguage'' eng_fra) tessdata_url (Code ''eng'')
       = ([Call (Fetch False ''https://tessdata.example/4.0.0/eng.traineddata.gz'')], Inr [31, 139, 8, 2])
   \<and> readCache_calls (fst (loadAndGunzipFile example_env (job ''loadLanguage'' eng_fra) tessdata_url
         initialized_state (Code ''eng''))) = []
   \<and> fetch_calls (fst (loadAndGunzipFile example_env (job ''loadLanguage'' eng_fra) tessdata_url
         initialized_state (Code ''eng''))) = [(False, ''https://tessdata.example/4.0.0/eng.traineddata.gz'')]
   \<and> obtain_data example_env (job ''loadLanguage'' eng_fra) tessdata_url (Inline ''eng'' [1, 2, 3])
       = ([], Inr [1, 2, 3])"
proof -
  have n1: "cacheMethod tessdata_local = Some ''none''" by (simp add: tessdata_local_def no_options_def)
  have n2: "cacheMethod tessdata_url = Some ''none''" by (simp add: tessdata_url_def no_options_def)
  have l: "langPath tessdata_local = Some ''/tessdata''" "\<not> is_url_path example_env ''/tessdata''"
    "lang_file tessdata_local ''/tessdata'' ''eng'' = ''/tessdata/eng.traineddata.gz''"
    "readCache example_env ''/tessdata/eng.traineddata.gz'' = Inr (Some [31, 139, 8, 1])"
    by (simp_all add: tessdata_local_def no_options_def is_url_path_def example_env_def lang_file_def)
  have u: "langPath tessdata_url = Some ''https://tessdata.example/4.0.0''"
    "is_url_path example_env ''https://tessdata.example/4.0.0''"
    "lang_file tessdata_url ''https://tessdata.example/4.0.0'' ''eng''
       = ''https://tessdata.example/4.0.0/eng.traineddata.gz''"
    "fetch example_env ''https://tessdata.example/4.0.0/eng.traineddata.gz'' = Inr [31, 139, 8, 2]"
    "isWebWorker example_env = False"
    by (simp_all add: tessdata_url_def no_options_def is_url_path_def example_env_def lang_file_def)
  have a: "obtain_data example_env (job ''loadLanguage'' eng_list) tessdata_local (Code ''eng'')
       = ([Call (ReadCache ''/tessdata/eng.traineddata.gz'')], Inr [31, 139, 8, 1])
     \<and> readCache_calls (fst (loadAndGunzipFile example_env (job ''loadLanguage'' eng_list) tessdata_local
         initialized_state (Code ''eng''))) = [''/tessdata/eng.traineddata.gz'']
     \<and> fetch_calls (fst (loadAndGunzipFile example_env (job ''loadLanguage'' eng_list) tessdata_local
         initialized_state (Code ''eng''))) = []
     \<and> writeCache_calls (fst (loadAndGunzipFile example_env (job ''loadLanguage'' eng_list) tessdata_local
         initialized_state (Code ''eng''))) = []"
    using cache_none_reads_only_under_langPath[OF n1, of example_env "job ''loadLanguage'' eng_list"
        "Code ''eng''" initialized_state] l
    by simp
  have b: "obtain_data example_env (job ''loadLanguage'' eng_fra) tessdata_url (Code ''eng'')
       = ([Call (Fetch False ''https://tessdata.example/4.0.0/eng.traineddata.gz'')], Inr [31, 139, 8, 2])
     \<and> readCache_calls (fst (loadAndGunzipFile example_env (job ''loadLanguage'' eng_fra) tessdata_url
         initialized_state (Code ''eng''))) = []
     \<and> fetch_calls (fst (loadAndGunzipFile example_env (job ''loadLanguage'' eng_fra) tessdata_url
         initialized_state (Code ''eng''))) = [(False, ''https://tessdata.example/4.0.0/eng.traineddata.gz'')]"
    using cache_none_reads_only_under_langPath[OF n2, of example_env "job ''loadLanguage'' eng_fra"
        "Code ''eng''" initialized_state] u
    by simp
  have c: "obtain_data example_env (job ''loadLanguage'' eng_fra) tessdata_url (Inline ''eng'' [1, 2, 3])
       = ([], Inr [1, 2, 3])"
    using cache_none_reads_only_under_langPath[OF n2, of example_env "job ''loadLanguage'' eng_fra"
        "Inline ''eng'' [1, 2, 3]" initialized_state]
    by simp
  have run: "obtain_data example_env (job ''loadLanguage'' eng_list) tessdata_local (Code ''eng'')
       = ([Call (ReadCache ''/tessdata/eng.traineddata.gz'')], Inr [31, 139, 8, 1])"
    "obtain_data example_env (job ''loadLanguage'' eng_fra) tessdata_url (Code ''eng'')
       = ([Call (Fetch False ''https://tessdata.example/4.0.0/eng.traineddata.gz'')], Inr [31, 139, 8, 2])"
    by (simp_all add: obtain_data_def from_cache_def from_path_def n1 n2 l u)
  show ?thesis using n1 n2 a b c run by simp
qed

text \<open>
  Claim C4 as it is stated fails: \<^verbatim>\<open>loadLanguage\<close> of the list of the one code \<^verbatim>\<open>eng\<close> with
  \<^verbatim>\<open>cacheMethod\<close> \<^verbatim>\<open>none\<close> and the \<^verbatim>\<open>langPath\<close> \<^verbatim>\<open>/tessdata\<close>, which is not a URL, calls the
  adapter's \<^verbatim>\<open>readCache\<close>.
\<close>

theorem cache_none_calls_readCache_counterexample:
  "cacheMethod tessdata_local = Some ''none''
   \<and> fst (loadLanguage example_env (job ''loadLanguage'' eng_list) initialized_state) =
       [Send (job ''loadLanguage'' eng_list) Progress
          (ProgressInfo ''worker-1'' ''loading language traineddata'' 0),
        Call (ReadCache ''/tessdata/eng.traineddata.gz''),
        Call (Gunzip [31, 139, 8, 1]),
        Call (FS_writeFile ''./eng.traineddata'' [1]),
        Send (job ''loadLanguage'' eng_list) Progress
          (ProgressInfo ''worker-1'' ''loaded language traineddata'' 1),
        Send (job ''loadLanguage'' eng_list) Resolve (Langs (LangArr [Code ''eng'']))]"
  by (simp add: loadLanguage_def specs_of_def loadAndGunzipFile_def obtain_data_def from_cache_def
        from_path_def gunzip_if_gzip_def write_traineddata_def to_cache_def task_steps_def
        is_url_path_def lang_file_def data_file_def cache_file_def or_dot_def
        tessdata_local_def no_options_def eng_list_def no_payload_def job_def
        example_env_def initialized_state_def)





lemma events_of_task_steps [simp]: "events_of (task_steps t) = fst t"
proof -
  have "events_of (map Ev evs @ [Settled r]) = evs" for evs r
    by (induction evs) simp_all
  then show ?thesis by (simp add: task_steps_def)
qed

lemma settled_count_concat:
  "length (filter is_settled (concat (map task_steps ts))) = length ts"
proof -
  have "filter is_settled (map Ev evs) = []" for evs
    by (induction evs) simp_all
  then have "length (filter is_settled (task_steps t)) = 1" for t
    by (simp add: task_steps_def)
  then show ?thesis by (induction ts) simp_all
qed

lemma settled_count_interleave:
  "length (filter is_settled (interleave sched (map task_steps ts))) = length ts"
proof -
  have "mset (filter is_settled (interleave sched (map task_steps ts)))
      = mset (filter is_settled (concat (map task_steps ts)))"
    by (simp add: mset_interleave)
  then have "length (filter is_settled (interleave sched (map task_steps ts)))
      = length (filter is_settled (concat (map task_steps ts)))"
    by (metis size_mset)
  then show ?thesis by (simp add: settled_count_concat)
qed

lemma set_interleave: "set (interleave sched xss) = set (concat xss)"
  by (metis mset_interleave set_mset_mset)

lemma interleave_all_fulfilled:
  assumes "\<forall>t \<in> set ts. \<exists>d. snd t = Inr d"
  shows "promise_all k (length ts) (interleave sched (map task_steps ts))
       = events_of (interleave sched (map task_steps ts)) @ k None"
proof (rule promise_all_fulfilled)
  show "\<forall>s \<in> set (interleave sched (map task_steps ts)). \<forall>err. s \<noteq> Settled (Some err)"
    using assms by (auto simp: set_interleave task_steps_def)
  show "length (filter is_settled (interleave sched (map task_steps ts))) = length ts"
    by (rule settled_count_interleave)
  show "interleave sched (map task_steps ts) = [] \<or> is_settled (last (interleave sched (map task_steps ts)))"
  proof (cases "interleave sched (map task_steps ts) = []")
    case True
    then show ?thesis by simp
  next
    case False
    have "\<forall>xs \<in> set (map task_steps ts). xs \<noteq> [] \<longrightarrow> is_settled (last xs)"
      by (auto simp: task_steps_def)
    from last_interleave[OF this False] show ?thesis by simp
  qed
qed

lemma loadLanguage_all_succeed:
  assumes "payload packet = Some pl" and "options pl = Some opts" and "langs pl = Some ls"
    and ok: "\<forall>spec \<in> set (specs_of ls). \<exists>d. snd (loadAndGunzipFile env packet opts st spec) = Inr d"
  shows "\<exists>mid. fst (loadLanguage env packet st) =
           Send packet Progress (ProgressInfo (workerId packet) ''loading language traineddata'' 0)
             # mid
             @ [Send packet Progress (ProgressInfo (workerId packet) ''loaded language traineddata'' 1),
                Send packet Resolve (Langs ls)]
         \<and> mset mid = mset (concat (map (\<lambda>spec. fst (loadAndGunzipFile env packet opts st spec))
                                       (specs_of ls)))"
proof -
  let ?ts = "map (loadAndGunzipFile env packet opts st) (specs_of ls)"
  let ?S = "interleave (schedule env) (map task_steps ?ts)"
  have t: "\<forall>t \<in> set ?ts. \<exists>d. snd t = Inr d" using ok by auto
  have "fst (loadLanguage env packet st) =
      Send packet Progress (ProgressInfo (workerId packet) ''loading language traineddata'' 0)
        # promise_all (loadLanguage_end env packet ls) (length ?ts) ?S"
    by (simp add: loadLanguage_trace[OF assms(1-3)])
  also have "promise_all (loadLanguage_end env packet ls) (length ?ts) ?S
      = events_of ?S @ loadLanguage_end env packet ls None"
    by (rule interleave_all_fulfilled[OF t])
  finally have f: "fst (loadLanguage env packet st) =
      Send packet Progress (ProgressInfo (workerId packet) ''loading language traineddata'' 0)
        # events_of ?S
        @ [Send packet Progress (ProgressInfo (workerId packet) ''loaded language traineddata'' 1),
           Send packet Resolve (Langs ls)]"
    by simp
  have "mset (events_of ?S) = mset (concat (map events_of (map task_steps ?ts)))"
    by (rule mset_events_of_interleave)
  also have "map events_of (map task_steps ?ts)
      = map (\<lambda>spec. fst (loadAndGunzipFile env packet opts st spec)) (specs_of ls)"
    by (simp add: comp_def)
  finally show ?thesis using f by blast
qed

lemma loadAndGunzipFile_no_resolve:
  "Send p Resolve x \<notin> set (fst (loadAndGunzipFile env packet opts st spec))"
proof
  assume a: "Send p Resolve x \<in> set (fst (loadAndGunzipFile env packet opts st spec))"
  from loadAndGunzipFile_event_shapes[OF a]
  show False
    using obtain_data_events[of "Send p Resolve x" env packet opts spec] by auto
qed

lemma loadLanguage_resolves_with_langs:
  assumes "payload packet = Some pl" and "options pl = Some opts" and "langs pl = Some ls"
    and r: "Send p Resolve x \<in> set (fst (loadLanguage env packet st))"
  shows "p = packet \<and> x = Langs ls"
proof -
  let ?ts = "map (loadAndGunzipFile env packet opts st) (specs_of ls)"
  let ?S = "interleave (schedule env) (map task_steps ?ts)"
  from r have "Send p Resolve x \<in> set (promise_all (loadLanguage_end env packet ls) (length ?ts) ?S)"
    by (simp add: loadLanguage_trace[OF assms(1-3)])
  then consider "Send p Resolve x \<in> set (events_of ?S)"
    | k where "Send p Resolve x \<in> set (loadLanguage_end env packet ls k)"
    using set_promise_all[of "loadLanguage_end env packet ls" "length ?ts" ?S] by auto
  then show ?thesis
  proof cases
    case 1
    then have "Send p Resolve x \<in> set_mset (mset (events_of ?S))" by simp
    then have "Send p Resolve x \<in> set (concat (map events_of (map task_steps ?ts)))"
      unfolding mset_events_of_interleave by simp
    then show ?thesis using loadAndGunzipFile_no_resolve by (auto simp: comp_def)
  next
    case 2
    then show ?thesis by (cases k) (auto simp: loadLanguage_catch_def split: if_splits)
  qed
qed

text \<open>
  Claim C10.  For a string \<^verbatim>\<open>langs\<close>, \<^verbatim>\<open>loadLanguage\<close> runs \<^verbatim>\<open>loadAndGunzipFile\<close> once for each
  piece of the string between the \<^verbatim>\<open>+\<close> signs, each piece as a code of its own: the
  pieces have no \<^verbatim>\<open>+\<close> and joined by \<^verbatim>\<open>+\<close> give the string back, and under every schedule
  the calls of the handler are, up to their order, those of the runs for the pieces, each
  run being what it is alone.  When every run succeeds, the handler ends by resolving
  with the string as it was given; and whatever is resolved is that string.
\<close>

theorem loadLanguage_splits_string_on_plus:
  assumes pl: "payload packet = Some pl" and opts: "options pl = Some opts"
    and ls: "langs pl = Some (LangStr s)"
  shows "specs_of (LangStr s) = map Code (split_on CHR ''+'' s)
     \<and> join_on CHR ''+'' (split_on CHR ''+'' s) = s
     \<and> (\<forall>w \<in> set (split_on CHR ''+'' s). CHR ''+'' \<notin> set w)
     \<and> mset (calls_of (fst (loadLanguage env packet st)))
         = mset (concat (map (\<lambda>lang. calls_of (fst (loadAndGunzipFile env packet opts st (Code lang))))
                           (split_on CHR ''+'' s)))
     \<and> ((\<forall>lang \<in> set (split_on CHR ''+'' s).
            \<exists>d. snd (loadAndGunzipFile env packet opts st (Code lang)) = Inr d) \<longrightarrow>
          (\<exists>mid. fst (loadLanguage env packet st) =
             Send packet Progress (ProgressInfo (workerId packet) ''loading language traineddata'' 0)
               # mid
               @ [Send packet Progress (ProgressInfo (workerId packet) ''loaded language traineddata'' 1),
                  Send packet Resolve (Langs (LangStr s))]
           \<and> mset mid = mset (concat (map (\<lambda>lang. fst (loadAndGunzipFile env packet opts st (Code lang)))
                                         (split_on CHR ''+'' s)))))
     \<and> (\<forall>p x. Send p Resolve x \<in> set (fst (loadLanguage env packet st)) \<longrightarrow>
           p = packet \<and> x = Langs (LangStr s))"
proof -
  have a: "specs_of (LangStr s) = map Code (split_on CHR ''+'' s)"
    by (simp add: specs_of_def)
  have b: "join_on CHR ''+'' (split_on CHR ''+'' s) = s"
    by (rule join_split_on)
  have c: "\<forall>w \<in> set (split_on CHR ''+'' s). CHR ''+'' \<notin> set w"
    using split_on_no_sep by blast
  have d: "mset (calls_of (fst (loadLanguage env packet st)))
         = mset (concat (map (\<lambda>lang. calls_of (fst (loadAndGunzipFile env packet opts st (Code lang))))
                           (split_on CHR ''+'' s)))"
    using mset_calls_of_loadLanguage[OF pl opts ls, of env st] by (simp add: a comp_def)
  have e: "\<exists>mid. fst (loadLanguage env packet st) =
             Send packet Progress (ProgressInfo (workerId packet) ''loading language traineddata'' 0)
               # mid
               @ [Send packet Progress (ProgressInfo (workerId packet) ''loaded language traineddata'' 1),
                  Send packet Resolve (Langs (LangStr s))]
           \<and> mset mid = mset (concat (map (\<lambda>lang. fst (loadAndGunzipFile env packet opts st (Code lang)))
                                         (split_on CHR ''+'' s)))"
    if ok: "\<forall>lang \<in> set (split_on CHR ''+'' s).
            \<exists>d. snd (loadAndGunzipFile env packet opts st (Code lang)) = Inr d"
  proof -
    have "\<forall>spec \<in> set (specs_of (LangStr s)). \<exists>d. snd (loadAndGunzipFile env packet opts st spec) = Inr d"
      using ok by (auto simp: a)
    from loadLanguage_all_succeed[OF pl opts ls this] show ?thesis
      by (simp add: a comp_def)
  qed
  have f: "\<forall>p x. Send p Resolve x \<in> set (fst (loadLanguage env packet st)) \<longrightarrow>
           p = packet \<and> x = Langs (LangStr s)"
    using loadLanguage_resolves_with_langs[OF pl opts ls] by blast
  show ?thesis using a b c d e f by blast
qed

theorem loadLanguage_splits_string_on_plus_witness:
  "langs eng_fra = Some (LangStr ''eng+fra'')
   \<and> split_on CHR ''+'' ''eng+fra'' = [''eng'', ''fra'']
   \<and> specs_of (LangStr ''eng+fra'') = [Code ''eng'', Code ''fra'']
   \<and> fst (loadLanguage two_runs_env (job ''loadLanguage'' eng_fra) initialized_state) =
       [Send (job ''loadLanguage'' eng_fra) Progress
          (ProgressInfo ''worker-1'' ''loading language traineddata'' 0),
        Call (Fetch False ''https://tessdata.example/4.0.0/eng.traineddata.gz''),
        Call (Fetch False ''https://tessdata.example/4.0.0/fra.traineddata.gz''),
        Call (Gunzip [31, 139, 8, 2]),
        Call (FS_writeFile ''./eng.traineddata'' [2]),
        Call (Gunzip [31, 139, 8, 2]),
        Call (FS_writeFile ''./fra.traineddata'' [2]),
        Send (job ''loadLanguage'' eng_fra) Progress
          (ProgressInfo ''worker-1'' ''loaded language traineddata'' 1),
        Send (job ''loadLanguage'' eng_fra) Resolve (Langs (LangStr ''eng+fra''))]"
proof -
  have pl: "payload (job ''loadLanguage'' eng_fra) = Some eng_fra" by (simp add: job_def)
  have opts: "options eng_fra = Some tessdata_url" and ls: "langs eng_fra = Some (LangStr ''eng+fra'')"
    by (simp_all add: eng_fra_def)
  have sp: "split_on CHR ''+'' ''eng+fra'' = [''eng'', ''fra'']" by simp
  have tr: "fst (loadLanguage two_runs_env (job ''loadLanguage'' eng_fra) initialized_state) =
       [Send (job ''loadLanguage'' eng_fra) Progress
          (ProgressInfo ''worker-1'' ''loading language traineddata'' 0),
        Call (Fetch False ''https://tessdata.example/4.0.0/eng.traineddata.gz''),
        Call (Fetch False ''https://tessdata.example/4.0.0/fra.traineddata.gz''),
        Call (Gunzip [31, 139, 8, 2]),
        Call (FS_writeFile ''./eng.traineddata'' [2]),
        Call (Gunzip [31, 139, 8, 2]),
        Call (FS_writeFile ''./fra.traineddata'' [2]),
        Send (job ''loadLanguage'' eng_fra) Progress
          (ProgressInfo ''worker-1'' ''loaded language traineddata'' 1),
        Send (job ''loadLanguage'' eng_fra) Resolve (Langs (LangStr ''eng+fra''))]"
    by (simp add: loadLanguage_def specs_of_def loadAndGunzipFile_def obtain_data_def from_cache_def
        from_path_def gunzip_if_gzip_def write_traineddata_def to_cache_def task_steps_def
        is_url_path_def lang_file_def data_file_def cache_file_def or_dot_def
        tessdata_url_def no_options_def eng_fra_def no_payload_def job_def
        two_runs_env_def example_env_def initialized_state_def)
  from loadLanguage_splits_string_on_plus[OF pl opts ls, of two_runs_env initialized_state]
  have "specs_of (LangStr ''eng+fra'') = map Code (split_on CHR ''+'' ''eng+fra'')" by blast
  then show ?thesis using ls sp tr by simp
qed

subsection \<open>The responses to a packet\<close>

text \<open>
  Claim C1 fails in the code.  \<^verbatim>\<open>loadLanguage\<close> of \<^verbatim>\<open>eng\<close> with a \<^verbatim>\<open>dataPath\<close> whose \<^verbatim>\<open>mkdir\<close>
  throws (the directory is there already): the \<^verbatim>\<open>catch\<close> around \<^verbatim>\<open>mkdir\<close> sends a
  rejection and the run goes on, so that the same packet is rejected and then resolved.
\<close>

theorem loadLanguage_rejects_then_resolves:
  "fst (dispatchHandlers data_exists_env (job ''loadLanguage'' eng_into_data) initialized_state) =
       [Send (job ''loadLanguage'' eng_into_data) Progress
          (ProgressInfo ''worker-1'' ''loading language traineddata'' 0),
        Call (Fetch False ''https://tessdata.example/4.0.0/eng.traineddata.gz''),
        Call (Gunzip [31, 139, 8, 2]),
        Call (FS_mkdir ''/data''),
        Send (job ''loadLanguage'' eng_into_data) Reject (ErrString (Failure ''ErrnoError: FS error'')),
        Call (FS_writeFile ''/data/eng.traineddata'' [2]),
        Send (job ''loadLanguage'' eng_into_data) Progress
          (ProgressInfo ''worker-1'' ''loaded language traineddata'' 1),
        Send (job ''loadLanguage'' eng_into_data) Resolve (Langs (LangStr ''eng''))]
   \<and> statuses (fst (dispatchHandlers data_exists_env (job ''loadLanguage'' eng_into_data) initialized_state))
       = [Progress, Reject, Progress, Resolve]"
proof -
  have "fst (dispatchHandlers data_exists_env (job ''loadLanguage'' eng_into_data) initialized_state) =
       [Send (job ''loadLanguage'' eng_into_data) Progress
          (ProgressInfo ''worker-1'' ''loading language traineddata'' 0),
        Call (Fetch False ''https://tessdata.example/4.0.0/eng.traineddata.gz''),
        Call (Gunzip [31, 139, 8, 2]),
        Call (FS_mkdir ''/data''),
        Send (job ''loadLanguage'' eng_into_data) Reject (ErrString (Failure ''ErrnoError: FS error'')),
        Call (FS_writeFile ''/data/eng.traineddata'' [2]),
        Send (job ''loadLanguage'' eng_into_data) Progress
          (ProgressInfo ''worker-1'' ''loaded language traineddata'' 1),
        Send (job ''loadLanguage'' eng_into_data) Resolve (Langs (LangStr ''eng''))]"
    by (simp add: dispatchHandlers_def handlers_def statement_defs
        loadLanguage_def specs_of_def loadAndGunzipFile_def obtain_data_def from_cache_def
        from_path_def gunzip_if_gzip_def write_traineddata_def to_cache_def task_steps_def
        is_url_path_def lang_file_def data_file_def cache_file_def or_dot_def
        tessdata_url_def no_options_def eng_into_data_def no_payload_def job_def
        data_exists_env_def example_env_def initialized_state_def)
  then show ?thesis by simp
qed

text \<open>
  Claim C2, as amended.  The ten names are the own properties of the object the handler
  is taken out of.  For a packet whose action is none of them and is not the name of a
  function inherited from \<^verbatim>\<open>Object.prototype\<close>, \<^verbatim>\<open>dispatchHandlers\<close> sends exactly one
  response, a rejection with the string of the \<^verbatim>\<open>TypeError\<close> of the call, changes nothing
  but \<^verbatim>\<open>latestJob\<close>, and lets no exception out.  For the name of an inherited function it
  sends nothing at all.
\<close>

theorem dispatch_unknown_action:
  assumes "action packet \<notin> set (map fst handlers)"
  shows "map fst handlers = [''load'', ''FS'', ''loadLanguage'', ''initialize'', ''setParameters'',
            ''recognize'', ''threshold'', ''getPDF'', ''detect'', ''terminate'']
     \<and> (action packet \<notin> set Object_prototype_methods \<longrightarrow>
          dispatchHandlers env packet st =
            ([Send packet Reject (ErrString (TypeError ''handlers[packet.action]''))],
             st\<lparr>latestJob := Some packet\<rparr>, None))
     \<and> (action packet \<in> set Object_prototype_methods \<longrightarrow>
          dispatchHandlers env packet st = ([], st\<lparr>latestJob := Some packet\<rparr>, None))"
proof -
  have n: "map_of handlers (action packet) = None"
    using assms by (simp add: map_of_eq_None_iff)
  have "map fst handlers = [''load'', ''FS'', ''loadLanguage'', ''initialize'', ''setParameters'',
            ''recognize'', ''threshold'', ''getPDF'', ''detect'', ''terminate'']"
    by (simp add: handlers_def)
  then show ?thesis
    by (simp add: dispatchHandlers_def n statement_defs)
qed

theorem dispatch_unknown_action_witness:
  "action (job ''ocr'' no_payload) \<notin> set (map fst handlers)
   \<and> action (job ''ocr'' no_payload) \<notin> set Object_prototype_methods
   \<and> dispatchHandlers example_env (job ''ocr'' no_payload) (initial_state example_env) =
       ([Send (job ''ocr'' no_payload) Reject (ErrString (TypeError ''handlers[packet.action]''))],
        (initial_state example_env)\<lparr>latestJob := Some (job ''ocr'' no_payload)\<rparr>, None)"
proof -
  have a: "action (job ''ocr'' no_payload) \<notin> set (map fst handlers)"
    by (simp add: job_def handlers_def)
  have b: "action (job ''ocr'' no_payload) \<notin> set Object_prototype_methods"
    by (simp add: job_def Object_prototype_methods_def)
  from dispatch_unknown_action[OF a, of example_env "initial_state example_env"] a b
  show ?thesis by blast
qed

text \<open>
  Claim C2 as it is stated fails: \<^verbatim>\<open>toString\<close> is none of the ten names, and a packet with
  that action is answered by nothing, neither a rejection nor anything else.
\<close>

theorem dispatch_toString_counterexample:
  "action (job ''toString'' no_payload) \<notin> set (map fst handlers)
   \<and> dispatchHandlers example_env (job ''toString'' no_payload) (initial_state example_env) =
       ([], (initial_state example_env)\<lparr>latestJob := Some (job ''toString'' no_payload)\<rparr>, None)"
  by (simp add: job_def handlers_def dispatchHandlers_def Object_prototype_methods_def statement_defs)

end
